theory Spec2Isabelle
  imports Main "HOL-Library.AList"
begin

section \<open>Errors and Python arithmetic\<close>

text \<open>
  The exceptions the modelled code can raise. Every \<open>raise\<close> of the source and every
  failing built-in operation is a value \<open>Inl e\<close> of a result type \<open>error + 'a\<close>.
\<close>

datatype error =
    ValueError string
  | KeyError string
  | IndexError
  | TypeError
  | AttributeError
  | ZeroDivisionError
  | OverflowError
  | NotImplementedError
  | RuntimeError


text \<open>Python's \<open>a // b\<close> on unbounded integers: floor division, raising on a zero divisor.\<close>

definition py_floordiv :: "int \<Rightarrow> int \<Rightarrow> error + int" where
  "py_floordiv a b = (if b = 0 then Inl ZeroDivisionError else Inr (a div b))"

section \<open>Python numbers\<close>

text \<open>
  A Python float is a dyadic rational \<open>m * 2 ^ e\<close>, an infinity or a not-a-number.
  Only what \<open>_validate_cfg\<close> does with one is modelled: the conversion \<open>int(x)\<close>
  (truncation towards zero; \<open>OverflowError\<close> on an infinity, \<open>ValueError\<close> on a NaN)
  and the comparison with an integer.
\<close>

datatype pyfloat = Finite int int | Infinity | NaN

datatype pynum = PyInt int | PyFloat pyfloat

fun py_int :: "pynum \<Rightarrow> error + int" where
  "py_int (PyInt n) = Inr n"
| "py_int (PyFloat (Finite m e)) =
     (if 0 \<le> e then Inr (m * 2 ^ nat e)
      else if 0 \<le> m then Inr (m div 2 ^ nat (- e))
      else Inr (- ((- m) div 2 ^ nat (- e))))"
| "py_int (PyFloat Infinity) = Inl OverflowError"
| "py_int (PyFloat NaN) = Inl (ValueError ''cannot convert float NaN to integer'')"

text \<open>\<open>x != k\<close> for a number \<open>x\<close> and an integer \<open>k\<close>.\<close>

fun py_ne_int :: "pynum \<Rightarrow> int \<Rightarrow> bool" where
  "py_ne_int (PyInt n) k = (n \<noteq> k)"
| "py_ne_int (PyFloat (Finite m e)) k =
     (if 0 \<le> e then m * 2 ^ nat e \<noteq> k else m \<noteq> k * 2 ^ nat (- e))"
| "py_ne_int (PyFloat Infinity) k = True"
| "py_ne_int (PyFloat NaN) k = True"

text \<open>Whether a number has an integer value.\<close>

fun integer_valued :: "pynum \<Rightarrow> bool" where
  "integer_valued (PyInt n) = True"
| "integer_valued (PyFloat (Finite m e)) = (0 \<le> e \<or> 2 ^ nat (- e) dvd m)"
| "integer_valued (PyFloat Infinity) = False"
| "integer_valued (PyFloat NaN) = False"

section \<open>Batches\<close>

text \<open>
  A batch is a Python dictionary from keys to values; a dictionary keeps its keys in
  the order of insertion, and the loops of the source visit them in that order, so a
  batch is an association list. \<open>map_of\<close> looks a key up and \<open>AList.update\<close> is the
  assignment \<open>batch[k] = v\<close> (a new key goes last, an old key keeps its place).

  The values are the ones the batches of this repository hold: a two-dimensional tensor
  (given by its rows), a Python list, a string, a boolean, \<open>None\<close>, and a dictionary of
  keyword arguments. The elements of a list are token-id lists, small tensors,
  \<open>(start, end)\<close> tuples, integers, strings or lists of strings.
\<close>

datatype elem =
    ETokens "int list"
  | ETensor "int list"
  | ETuple nat nat
  | EInt int
  | EStr string
  | EStrs "string list"

datatype bval =
    VTensor "int list list"
  | VList "elem list"
  | VStr string
  | VBool bool
  | VNone
  | VKwargs "(string \<times> int) list"

type_synonym batch = "(string \<times> bval) list"

text \<open>\<open>type(v) == list\<close>.\<close>

fun is_list :: "bval \<Rightarrow> bool" where
  "is_list (VList xs) = True"
| "is_list v = False"

text \<open>
  The requested microbatch size, \<open>Union[int, float]\<close> in the source:
  \<open>isinstance(microbatch_size, float)\<close> is the test for the second constructor.
\<close>

datatype microbatch_size = MInt int | MFloat pyfloat

section \<open>The splitting functions of the training library\<close>

text \<open>
  \<open>chunks n xs\<close> cuts \<open>xs\<close> into consecutive pieces of \<open>n\<close> elements, the last one
  possibly shorter: \<open>[xs[start:start + n] for start in range(0, len(xs), n)]\<close> for a
  positive \<open>n\<close>.
\<close>

function chunks :: "nat \<Rightarrow> 'a list \<Rightarrow> 'a list list" where
  "chunks n xs = (if n = 0 \<or> xs = [] then [] else take n xs # chunks n (drop n xs))"
  by pat_completeness auto
termination
  by (relation "measure (\<lambda>(n, xs). length xs)") auto

declare chunks.simps [simp del]

text \<open>
  Modelled from the spec: \<open>_split_list\<close>, \<open>_default_split_batch\<close> and the tensor split are
  imported from \<open>composer.core.data_spec\<close> (line 16 of
  \<open>in_context_learning_evaluation.py\<close>) and are not among the source files. Section 4.5
  of the specification: given "a target microbatch row-count (must be an integer --
  fractional sizes are rejected)", a tensor or list value is split "every
  \<open>multiplier\<close> rows together", a value that is not one of the known kinds is a fatal
  error.

  \<open>split_list\<close> is the list comprehension over \<open>range(0, len(l), microbatch_size)\<close>: it
  slices any sequence (a list, a tensor by rows, a string); a zero step is Python's
  \<open>ValueError\<close> and a negative step gives an empty range. A value without a length raises
  \<open>TypeError\<close>.
\<close>

definition range_chunks ::
  "('a list \<Rightarrow> bval) \<Rightarrow> 'a list \<Rightarrow> int \<Rightarrow> error + bval list" where
  "range_chunks C xs n =
     (if n = 0 then Inl (ValueError ''range() arg 3 must not be zero'')
      else if n < 0 then Inr []
      else Inr (map C (chunks (nat n) xs)))"

fun split_list :: "bval \<Rightarrow> int \<Rightarrow> error + bval list" where
  "split_list (VList xs) n = range_chunks VList xs n"
| "split_list (VTensor rows) n = range_chunks VTensor rows n"
| "split_list (VStr s) n = range_chunks VStr s n"
| "split_list v n = Inl TypeError"

text \<open>
  \<open>split_tensor\<close> is \<open>torch.Tensor.split\<close> along the rows: pieces of \<open>n\<close> rows for a positive
  \<open>n\<close>, and always at least one piece (an empty tensor gives one empty piece); a
  negative size, or a zero size on a tensor with rows, is an error of the tensor
  library.
\<close>

definition split_tensor :: "int list list \<Rightarrow> int \<Rightarrow> error + bval list" where
  "split_tensor rows n =
     (if n < 0 then Inl RuntimeError
      else if rows = [] then Inr [VTensor []]
      else if n = 0 then Inl RuntimeError
      else Inr (map VTensor (chunks (nat n) rows)))"

text \<open>
  \<open>default_split_batch\<close> on one value: a float size is rejected first; a tensor is split
  by rows, a list as a list, a dictionary of keyword arguments is kept whole in a
  single piece; any other value is not supported.
\<close>

definition default_split_batch :: "bval \<Rightarrow> microbatch_size \<Rightarrow> error + bval list" where
  "default_split_batch v microbatch_size =
     (case microbatch_size of
        MFloat f \<Rightarrow>
          Inl (ValueError ''_default_split_batch does not support floating point microbatch_size.'')
      | MInt n \<Rightarrow>
          (case v of
             VTensor rows \<Rightarrow> split_tensor rows n
           | VList xs \<Rightarrow> split_list (VList xs) n
           | VKwargs kw \<Rightarrow> Inr [VKwargs kw]
           | _ \<Rightarrow> Inl NotImplementedError))"

text \<open>
  The dictionary \<open>chunked\<close> of the splitting functions: for each key the list of its
  pieces. \<open>microbatch_at chunked idx\<close> is the dictionary comprehension
  \<open>{k: v[idx] for k, v in chunked.items()}\<close>, which raises \<open>IndexError\<close> when a key has
  fewer than \<open>idx + 1\<close> pieces; \<open>assemble\<close> is the list of these for
  \<open>idx in range(num_chunks)\<close>.
\<close>

type_synonym chunked = "(string \<times> bval list) list"

fun microbatch_at :: "chunked \<Rightarrow> nat \<Rightarrow> error + batch" where
  "microbatch_at [] idx = Inr []"
| "microbatch_at ((k, v) # rest) idx =
     (if idx < length v
      then (case microbatch_at rest idx of Inl e \<Rightarrow> Inl e | Inr mb \<Rightarrow> Inr ((k, v ! idx) # mb))
      else Inl IndexError)"

fun collect :: "(error + 'a) list \<Rightarrow> error + 'a list" where
  "collect [] = Inr []"
| "collect (m # ms) =
     (case m of
        Inl e \<Rightarrow> Inl e
      | Inr x \<Rightarrow> (case collect ms of Inl e \<Rightarrow> Inl e | Inr xs \<Rightarrow> Inr (x # xs)))"

definition assemble :: "chunked \<Rightarrow> nat \<Rightarrow> error + batch list" where
  "assemble chunked num_chunks = collect (map (microbatch_at chunked) [0..<num_chunks])"

text \<open>
  The first loop of a \<open>split_batch\<close>: every entry of the batch is either deferred (a
  static key, \<open>None\<close>), or split into pieces that are stored under its key, or the
  reason for an error. \<open>f k v\<close> is the body of the loop for the entry \<open>(k, v)\<close>.
\<close>

fun chunk_loop ::
  "(string \<Rightarrow> bval \<Rightarrow> error + bval list option) \<Rightarrow> batch \<Rightarrow> chunked \<Rightarrow> error + chunked" where
  "chunk_loop f [] chunked = Inr chunked"
| "chunk_loop f ((k, v) # rest) chunked =
     (case f k v of
        Inl e \<Rightarrow> Inl e
      | Inr None \<Rightarrow> chunk_loop f rest chunked
      | Inr (Some c) \<Rightarrow> chunk_loop f rest (AList.update k c chunked))"

text \<open>
  The second loop: \<open>chunked[k] = [v] * num_chunks\<close> for every entry whose key is deferred.
\<close>

fun broadcast_loop :: "(string \<Rightarrow> bval \<Rightarrow> bool) \<Rightarrow> nat \<Rightarrow> batch \<Rightarrow> chunked \<Rightarrow> chunked" where
  "broadcast_loop deferred num_chunks [] chunked = chunked"
| "broadcast_loop deferred num_chunks ((k, v) # rest) chunked =
     (if deferred k v
      then broadcast_loop deferred num_chunks rest (AList.update k (replicate num_chunks v) chunked)
      else broadcast_loop deferred num_chunks rest chunked)"

text \<open>
  \<open>default_split_batch\<close> on a whole batch (a mapping), as the base class calls it: after
  the test of the size, tensors and lists are split, a dictionary of keyword arguments
  is kept whole, strings and booleans are broadcast, anything else is an error; the
  number of pieces is that of the first split key, or 1 when no key was split.
\<close>

definition split_mapping_value :: "int \<Rightarrow> string \<Rightarrow> bval \<Rightarrow> error + bval list option" where
  "split_mapping_value n k v =
     (case v of
        VTensor rows \<Rightarrow> map_sum id Some (split_tensor rows n)
      | VList xs \<Rightarrow> map_sum id Some (split_list (VList xs) n)
      | VKwargs kw \<Rightarrow> Inr (Some [VKwargs kw])
      | VStr s \<Rightarrow> Inr None
      | VBool b \<Rightarrow> Inr None
      | VNone \<Rightarrow> Inl (ValueError ''Unsupported batch type''))"

fun is_primitive :: "bval \<Rightarrow> bool" where
  "is_primitive (VStr s) = True"
| "is_primitive (VBool b) = True"
| "is_primitive v = False"

definition default_split_batch_mapping :: "batch \<Rightarrow> microbatch_size \<Rightarrow> error + batch list" where
  "default_split_batch_mapping batch microbatch_size =
     (case microbatch_size of
        MFloat f \<Rightarrow>
          Inl (ValueError ''_default_split_batch does not support floating point microbatch_size.'')
      | MInt n \<Rightarrow>
          (case chunk_loop (split_mapping_value n) batch [] of
             Inl e \<Rightarrow> Inl e
           | Inr chunked \<Rightarrow>
               (let num_chunks = (case chunked of [] \<Rightarrow> 1 | (k, c) # rest \<Rightarrow> length c)
                in assemble (broadcast_loop (\<lambda>k v. is_primitive v) num_chunks batch chunked)
                     num_chunks)))"

section \<open>The dataset classes\<close>

text \<open>
  The attributes of a dataset object that the modelled methods read. \<open>static_keys\<close>,
  \<open>list_keys\<close> and \<open>tensor_keys\<close> belong to every class (an argument left at \<open>None\<close> is the
  empty list); the multiple-choice class adds three more key lists, \<open>num_choices\<close>, and
  its \<open>base_batch\<close>, \<open>pad_tok_id\<close> and \<open>tokenize_labels\<close> are used by its \<open>collate_fn\<close>.
\<close>

record key_attrs =
  static_keys :: "string list"
  list_keys :: "string list"
  tensor_keys :: "string list"

record mc_attrs = key_attrs +
  list_of_tensors_keys :: "string list"
  list_of_tuples_keys :: "string list"
  list_of_primitives :: "string list"
  num_choices :: nat
  base_batch :: batch
  pad_tok_id :: int
  tokenize_labels :: bool

text \<open>
  The class hierarchy of \<open>in_context_learning_evaluation.py\<close> as a closed set of variants.
  The language-modelling class overrides none of the modelled methods of the base class.
\<close>

datatype icl_dataset =
    InContextLearningDataset
  | InContextLearningLMTaskDataset
  | InContextLearningGenerationTaskWithAnswersDataset key_attrs
  | InContextLearningMultipleChoiceTaskDataset mc_attrs
  | InContextLearningSchemaTaskDataset mc_attrs

text \<open>
  What the constructors set. The generation class fixes its three key lists. The
  multiple-choice class builds \<open>base_batch\<close> from six keys, to which
  \<open>update_generation_kwargs\<close> adds \<open>generation_kwargs\<close> when the argument is not empty;
  \<open>num_choices\<close> is \<open>len(self.dataset[0][self.choices_key])\<close>. The schema class passes
  \<open>static_keys = ['mode']\<close> and resets \<open>base_batch\<close> to the six keys.
\<close>

definition generation_init :: key_attrs where
  "generation_init =
     \<lparr>static_keys = [''mode'', ''cot_delimiter'', ''generation_kwargs'', ''do_normalization'',
                     ''stopping_criteria''],
      list_keys = [''labels''],
      tensor_keys = [''input_ids'', ''attention_mask'']\<rparr>"

definition mc_base_batch :: "(string \<times> int) list \<Rightarrow> batch" where
  "mc_base_batch generation_kwargs =
     [(''input_ids'', VList []),
      (''continuation_indices'', VList []),
      (''mode'', VStr ''icl_task''),
      (''labels'', VList []),
      (''gold_indices'', VList []),
      (''choice_groupings'', VList [])]
     @ (if generation_kwargs = [] then [] else [(''generation_kwargs'', VKwargs generation_kwargs)])"

definition multiple_choice_init ::
  "int \<Rightarrow> bool \<Rightarrow> (string \<times> int) list \<Rightarrow> nat \<Rightarrow> mc_attrs" where
  "multiple_choice_init pad tok_labels generation_kwargs n =
     \<lparr>static_keys = [''mode'', ''generation_kwargs''],
      list_keys = [],
      tensor_keys = [''input_ids'', ''labels'', ''attention_mask''],
      list_of_tensors_keys = [''continuation_indices''],
      list_of_tuples_keys = [''choice_groupings''],
      list_of_primitives = [''gold_indices''],
      num_choices = n,
      base_batch = mc_base_batch generation_kwargs,
      pad_tok_id = pad,
      tokenize_labels = tok_labels\<rparr>"

definition schema_init :: "int \<Rightarrow> bool \<Rightarrow> nat \<Rightarrow> mc_attrs" where
  "schema_init pad tok_labels n =
     (multiple_choice_init pad tok_labels [] n)\<lparr>static_keys := [''mode'']\<rparr>"

text \<open>
  \<open>get_effective_batch_size\<close>: the base class returns \<open>batch_size\<close> (the language-modelling and
  generation classes inherit it); the multiple-choice class and the schema class each
  define
  \<^verbatim>\<open>
    batch_size = max(self.num_choices, batch_size)
    effective_batchsize = batch_size // self.num_choices
    return effective_batchsize
  \<close>
\<close>

fun get_effective_batch_size :: "icl_dataset \<Rightarrow> int \<Rightarrow> error + int" where
  "get_effective_batch_size InContextLearningDataset batch_size = Inr batch_size"
| "get_effective_batch_size InContextLearningLMTaskDataset batch_size = Inr batch_size"
| "get_effective_batch_size (InContextLearningGenerationTaskWithAnswersDataset self) batch_size =
     Inr batch_size"
| "get_effective_batch_size (InContextLearningMultipleChoiceTaskDataset self) batch_size =
     (let batch_size = max (int (num_choices self)) batch_size
      in py_floordiv batch_size (int (num_choices self)))"
| "get_effective_batch_size (InContextLearningSchemaTaskDataset self) batch_size =
     (let batch_size = max (int (num_choices self)) batch_size
      in py_floordiv batch_size (int (num_choices self)))"

text \<open>The attributes of the two variants that replicate a question once per choice.\<close>

fun multi_choice :: "icl_dataset \<Rightarrow> mc_attrs option" where
  "multi_choice (InContextLearningMultipleChoiceTaskDataset self) = Some self"
| "multi_choice (InContextLearningSchemaTaskDataset self) = Some self"
| "multi_choice ds = None"

section \<open>The preamble's trailing end-of-sequence token\<close>

text \<open>
  \<^verbatim>\<open>
    def _fix_eos_on_preamble(self, input_ids):
        if (self.tokenizer.eos_token_id is not None and len(input_ids) > 1 and
            input_ids[-1] == self.tokenizer.eos_token_id):
            input_ids = input_ids[:-1]
        return input_ids
  \<close>
  The tokenizer's \<open>eos_token_id\<close> is nullable, hence an option. (The leading underscore of the
  source's name is not an Isabelle identifier.)
\<close>

definition fix_eos_on_preamble :: "int option \<Rightarrow> int list \<Rightarrow> int list" where
  "fix_eos_on_preamble eos_token_id input_ids =
     (if eos_token_id \<noteq> None \<and> length input_ids > 1 \<and> Some (last input_ids) = eos_token_id
      then butlast input_ids
      else input_ids)"

section \<open>Collation of multiple-choice records\<close>

text \<open>
  A tokenized multiple-choice record, as \<open>tokenize_example\<close> returns it: under the
  context key the padded context of every choice, under \<open>continuation_indices\<close> the
  span of every choice, under \<open>gold\<close> the index of the correct choice.
\<close>

record mc_tokenized =
  tok_context :: "int list list"
  tok_continuation_indices :: "int list list"
  tok_gold :: int

text \<open>
  \<open>batch[key].append(x)\<close> and \<open>len(batch[key])\<close>: a missing key raises \<open>KeyError\<close>, a value
  that is not a list has no \<open>append\<close> (and, in this model, no length that the loop may use).
\<close>

fun py_append :: "string \<Rightarrow> elem \<Rightarrow> batch \<Rightarrow> error + batch" where
  "py_append key x [] = Inl (KeyError key)"
| "py_append key x ((k, v) # rest) =
     (if k = key
      then (case v of VList xs \<Rightarrow> Inr ((k, VList (xs @ [x])) # rest) | _ \<Rightarrow> Inl AttributeError)
      else (case py_append key x rest of Inl e \<Rightarrow> Inl e | Inr rest' \<Rightarrow> Inr ((k, v) # rest')))"

definition py_len_of :: "string \<Rightarrow> batch \<Rightarrow> error + nat" where
  "py_len_of key batch =
     (case map_of batch key of
        None \<Rightarrow> Inl (KeyError key)
      | Some (VList xs) \<Rightarrow> Inr (length xs)
      | Some (VTensor rows) \<Rightarrow> Inr (length rows)
      | Some (VStr s) \<Rightarrow> Inr (length s)
      | Some (VKwargs kw) \<Rightarrow> Inr (length kw)
      | Some _ \<Rightarrow> Inl TypeError)"

text \<open>
  The inner loop of \<open>collate_fn\<close>, over \<open>enumerate(data_pair[self.context_key])\<close>:
  \<^verbatim>\<open>
    batch['input_ids'].append(context_enc)
    batch['continuation_indices'].append(data_pair['continuation_indices'][i])
    batch['labels'].append(context_enc)
  \<close>
\<close>

fun append_choices :: "int list list \<Rightarrow> (nat \<times> int list) list \<Rightarrow> batch \<Rightarrow> error + batch" where
  "append_choices continuation_indices [] batch = Inr batch"
| "append_choices continuation_indices ((i, context_enc) # rest) batch =
     (case py_append ''input_ids'' (ETokens context_enc) batch of
        Inl e \<Rightarrow> Inl e
      | Inr batch1 \<Rightarrow>
          if i < length continuation_indices
          then (case py_append ''continuation_indices'' (ETokens (continuation_indices ! i)) batch1 of
                  Inl e \<Rightarrow> Inl e
                | Inr batch2 \<Rightarrow>
                    (case py_append ''labels'' (ETokens context_enc) batch2 of
                       Inl e \<Rightarrow> Inl e
                     | Inr batch3 \<Rightarrow> append_choices continuation_indices rest batch3))
          else Inl IndexError)"

text \<open>
  The outer loop, over the records:
  \<^verbatim>\<open>
    choice_start_idx = len(batch['continuation_indices'])
    (the inner loop)
    batch['gold_indices'].append(data_pair['gold'])
    choice_end_idx = len(batch['continuation_indices'])
    batch['choice_groupings'].append((choice_start_idx, choice_end_idx))
  \<close>
\<close>

fun collate_loop :: "mc_tokenized list \<Rightarrow> batch \<Rightarrow> error + batch" where
  "collate_loop [] batch = Inr batch"
| "collate_loop (data_pair # rest) batch =
     (case py_len_of ''continuation_indices'' batch of
        Inl e \<Rightarrow> Inl e
      | Inr choice_start_idx \<Rightarrow>
          (case append_choices (tok_continuation_indices data_pair)
                  (enumerate 0 (tok_context data_pair)) batch of
             Inl e \<Rightarrow> Inl e
           | Inr batch1 \<Rightarrow>
               (case py_append ''gold_indices'' (EInt (tok_gold data_pair)) batch1 of
                  Inl e \<Rightarrow> Inl e
                | Inr batch2 \<Rightarrow>
                    (case py_len_of ''continuation_indices'' batch2 of
                       Inl e \<Rightarrow> Inl e
                     | Inr choice_end_idx \<Rightarrow>
                         (case py_append ''choice_groupings''
                                 (ETuple choice_start_idx choice_end_idx) batch2 of
                            Inl e \<Rightarrow> Inl e
                          | Inr batch3 \<Rightarrow> collate_loop rest batch3)))))"

text \<open>
  Modelled from the spec: \<open>convert_tokens_to_tensors\<close> is imported from
  \<open>llmfoundry.eval.datasets.utils\<close>, which is not among the source files. Section 4.4 of
  the specification: the collators "convert list-of-token-lists into dense tensors";
  section 3: \<open>input_ids\<close> and \<open>labels\<close> are tensor keys, one row per example, and
  \<open>continuation_indices\<close> is a list of one small tensor per row. The call passes
  \<open>self.tokenize_labels\<close>: the labels and the continuation indices are converted when the
  labels are tokenized. The rows of the tensor are the token lists, in order.
\<close>

fun tokens_of :: "elem list \<Rightarrow> int list list option" where
  "tokens_of [] = Some []"
| "tokens_of (ETokens t # xs) = (case tokens_of xs of None \<Rightarrow> None | Some ts \<Rightarrow> Some (t # ts))"
| "tokens_of (x # xs) = None"

fun to_tensor :: "bval \<Rightarrow> error + bval" where
  "to_tensor (VList xs) = (case tokens_of xs of None \<Rightarrow> Inl TypeError | Some rows \<Rightarrow> Inr (VTensor rows))"
| "to_tensor v = Inl TypeError"

fun to_tensor_list :: "bval \<Rightarrow> error + bval" where
  "to_tensor_list (VList xs) =
     (case tokens_of xs of None \<Rightarrow> Inl TypeError | Some ts \<Rightarrow> Inr (VList (map ETensor ts)))"
| "to_tensor_list v = Inl TypeError"

definition convert_key :: "string \<Rightarrow> (bval \<Rightarrow> error + bval) \<Rightarrow> batch \<Rightarrow> error + batch" where
  "convert_key k f batch =
     (case map_of batch k of
        None \<Rightarrow> Inl (KeyError k)
      | Some v \<Rightarrow> (case f v of Inl e \<Rightarrow> Inl e | Inr v' \<Rightarrow> Inr (AList.update k v' batch)))"

definition convert_tokens_to_tensors :: "batch \<Rightarrow> bool \<Rightarrow> error + batch" where
  "convert_tokens_to_tensors batch tok_labels =
     (case convert_key ''input_ids'' to_tensor batch of
        Inl e \<Rightarrow> Inl e
      | Inr batch1 \<Rightarrow>
          if tok_labels
          then (case convert_key ''labels'' to_tensor batch1 of
                  Inl e \<Rightarrow> Inl e
                | Inr batch2 \<Rightarrow> convert_key ''continuation_indices'' to_tensor_list batch2)
          else Inr batch1)"

text \<open>
  \<open>collate_fn\<close> of the multiple-choice class (the schema class inherits it): the loops on
  a deep copy of \<open>base_batch\<close>, the conversion, and
  \<open>batch['attention_mask'] = ~(batch['input_ids'] == self.pad_tok_id)\<close>, a mask that is 1
  where the token is not the padding token.
\<close>

definition attention_mask_of :: "int \<Rightarrow> int list list \<Rightarrow> int list list" where
  "attention_mask_of pad rows = map (map (\<lambda>t. if t = pad then 0 else 1)) rows"

definition collate_fn :: "mc_attrs \<Rightarrow> mc_tokenized list \<Rightarrow> error + batch" where
  "collate_fn self data =
     (case collate_loop data (base_batch self) of
        Inl e \<Rightarrow> Inl e
      | Inr batch \<Rightarrow>
          (case convert_tokens_to_tensors batch (tokenize_labels self) of
             Inl e \<Rightarrow> Inl e
           | Inr batch' \<Rightarrow>
               (case map_of batch' ''input_ids'' of
                  None \<Rightarrow> Inl (KeyError ''input_ids'')
                | Some (VTensor rows) \<Rightarrow>
                    Inr (AList.update ''attention_mask''
                           (VTensor (attention_mask_of (pad_tok_id self) rows)) batch')
                | Some _ \<Rightarrow> Inl TypeError)))"

text \<open>
  The shape of the dictionary while the loops of \<open>collate_fn\<close> run: the six keys of
  \<open>base_batch\<close> in their order, five of them holding the lists accumulated so far,
  followed by whatever else \<open>base_batch\<close> holds.
\<close>

definition collating ::
  "elem list \<Rightarrow> elem list \<Rightarrow> elem list \<Rightarrow> elem list \<Rightarrow> elem list \<Rightarrow> batch \<Rightarrow> batch" where
  "collating ids cis labels golds groups extra =
     [(''input_ids'', VList ids),
      (''continuation_indices'', VList cis),
      (''mode'', VStr ''icl_task''),
      (''labels'', VList labels),
      (''gold_indices'', VList golds),
      (''choice_groupings'', VList groups)] @ extra"

section \<open>Splitting a batch into microbatches\<close>

definition float_size_error :: error where
  "float_size_error = ValueError ''split_batch does not support floating point microbatch_size.''"

definition unexpected_key_in_list :: "string \<Rightarrow> error" where
  "unexpected_key_in_list k = ValueError (''Unexpected key '' @ k @ '' in list splitting'')"

definition unexpected_key_in_batch :: "string \<Rightarrow> error" where
  "unexpected_key_in_batch k = ValueError (''Unexpected key '' @ k @ '' in batch splitting'')"

text \<open>
  The body of the first loop of \<open>split_batch\<close> of the multiple-choice class, for the
  entry \<open>(k, v)\<close>, in the order of its \<open>if\<close>/\<open>elif\<close> chain.
\<close>

definition chunk_value_mc :: "mc_attrs \<Rightarrow> int \<Rightarrow> string \<Rightarrow> bval \<Rightarrow> error + bval list option" where
  "chunk_value_mc self microbatch_size k v =
     (if k \<in> set (static_keys self) then Inr None
      else if is_list v then
        (if k \<in> set (list_of_tensors_keys self)
         then map_sum id Some (split_list v (microbatch_size * int (num_choices self)))
         else if k \<in> set (list_of_tuples_keys self)
         then map_sum id Some (split_list v microbatch_size)
         else if k \<in> set (list_of_primitives self)
         then map_sum id Some (default_split_batch v (MInt microbatch_size))
         else Inl (unexpected_key_in_list k))
      else if k \<in> set (tensor_keys self)
      then map_sum id Some
             (default_split_batch v (MInt (microbatch_size * int (num_choices self))))
      else Inl (unexpected_key_in_batch k))"

text \<open>
  The rest of a \<open>split_batch\<close>, shared by the multiple-choice and the generation class:
  \<open>num_chunks = len(chunked['input_ids'])\<close>, the broadcast of the static keys, and the
  list of microbatches.
\<close>

definition finish_split :: "string list \<Rightarrow> batch \<Rightarrow> chunked \<Rightarrow> error + batch list" where
  "finish_split static batch chunked =
     (case map_of chunked ''input_ids'' of
        None \<Rightarrow> Inl (KeyError ''input_ids'')
      | Some c \<Rightarrow>
          (let num_chunks = length c
           in assemble (broadcast_loop (\<lambda>k v. k \<in> set static) num_chunks batch chunked)
                num_chunks))"

definition split_batch_mc :: "mc_attrs \<Rightarrow> batch \<Rightarrow> microbatch_size \<Rightarrow> error + batch list" where
  "split_batch_mc self batch microbatch_size =
     (case microbatch_size of
        MFloat f \<Rightarrow> Inl float_size_error
      | MInt n \<Rightarrow>
          (case chunk_loop (chunk_value_mc self n) batch [] of
             Inl e \<Rightarrow> Inl e
           | Inr chunked \<Rightarrow> finish_split (static_keys self) batch chunked))"

text \<open>The same for the generation class, whose chain has three classes of keys.\<close>

definition chunk_value_gen :: "key_attrs \<Rightarrow> int \<Rightarrow> string \<Rightarrow> bval \<Rightarrow> error + bval list option" where
  "chunk_value_gen self microbatch_size k v =
     (if k \<in> set (static_keys self) then Inr None
      else if k \<in> set (list_keys self)
      then map_sum id Some (split_list v microbatch_size)
      else if k \<in> set (tensor_keys self)
      then map_sum id Some (default_split_batch v (MInt microbatch_size))
      else Inl (unexpected_key_in_batch k))"

definition split_batch_gen :: "key_attrs \<Rightarrow> batch \<Rightarrow> microbatch_size \<Rightarrow> error + batch list" where
  "split_batch_gen self batch microbatch_size =
     (case microbatch_size of
        MFloat f \<Rightarrow> Inl float_size_error
      | MInt n \<Rightarrow>
          (case chunk_loop (chunk_value_gen self n) batch [] of
             Inl e \<Rightarrow> Inl e
           | Inr chunked \<Rightarrow> finish_split (static_keys self) batch chunked))"

text \<open>
  \<open>split_batch\<close> of every class: the base class (and with it the language-modelling
  class) hands the batch to \<open>_default_split_batch\<close>; the generation and the
  multiple-choice class define their own; the schema class inherits the
  multiple-choice one.
\<close>

fun split_batch :: "icl_dataset \<Rightarrow> batch \<Rightarrow> microbatch_size \<Rightarrow> error + batch list" where
  "split_batch InContextLearningDataset batch microbatch_size =
     default_split_batch_mapping batch microbatch_size"
| "split_batch InContextLearningLMTaskDataset batch microbatch_size =
     default_split_batch_mapping batch microbatch_size"
| "split_batch (InContextLearningGenerationTaskWithAnswersDataset self) batch microbatch_size =
     split_batch_gen self batch microbatch_size"
| "split_batch (InContextLearningMultipleChoiceTaskDataset self) batch microbatch_size =
     split_batch_mc self batch microbatch_size"
| "split_batch (InContextLearningSchemaTaskDataset self) batch microbatch_size =
     split_batch_mc self batch microbatch_size"

text \<open>
  The keys a class recognizes when it splits a batch: the static keys and the list and
  tensor classifications its \<open>split_batch\<close> tests (the base class tests none: it leaves
  the batch to the library). \<open>row_multiplier\<close> is the number of rows of one question:
  \<open>num_choices\<close> for the multiple-choice and the schema class, 1 otherwise.
\<close>

fun static_keys_of :: "icl_dataset \<Rightarrow> string set" where
  "static_keys_of (InContextLearningGenerationTaskWithAnswersDataset self) = set (static_keys self)"
| "static_keys_of (InContextLearningMultipleChoiceTaskDataset self) = set (static_keys self)"
| "static_keys_of (InContextLearningSchemaTaskDataset self) = set (static_keys self)"
| "static_keys_of ds = {}"

definition recognized_keys_mc :: "mc_attrs \<Rightarrow> string set" where
  "recognized_keys_mc self =
     set (static_keys self) \<union> set (list_of_tensors_keys self) \<union> set (list_of_tuples_keys self)
     \<union> set (list_of_primitives self) \<union> set (list_keys self) \<union> set (tensor_keys self)"

fun recognized_keys :: "icl_dataset \<Rightarrow> string set option" where
  "recognized_keys (InContextLearningGenerationTaskWithAnswersDataset self) =
     Some (set (static_keys self) \<union> set (list_keys self) \<union> set (tensor_keys self))"
| "recognized_keys (InContextLearningMultipleChoiceTaskDataset self) = Some (recognized_keys_mc self)"
| "recognized_keys (InContextLearningSchemaTaskDataset self) = Some (recognized_keys_mc self)"
| "recognized_keys ds = None"

fun row_multiplier :: "icl_dataset \<Rightarrow> nat" where
  "row_multiplier (InContextLearningMultipleChoiceTaskDataset self) = num_choices self"
| "row_multiplier (InContextLearningSchemaTaskDataset self) = num_choices self"
| "row_multiplier ds = 1"

text \<open>A value that is a tensor or a list: what a non-static key of a batch holds.\<close>

fun tensor_or_list :: "bval \<Rightarrow> bool" where
  "tensor_or_list (VTensor rows) = True"
| "tensor_or_list (VList xs) = True"
| "tensor_or_list v = False"

text \<open>
  A multiple-choice batch of \<open>Q\<close> questions as \<open>collate_fn\<close> builds it, for the statement
  of what \<open>split_batch\<close> returns. Every key that is not static holds a value of the kind
  its classification announces, with \<open>num_choices\<close> rows per question under a tensor key
  or a list-of-tensors key and one entry per question under a list-of-tuples or
  list-of-primitives key (the tests follow the order of the \<open>if\<close>/\<open>elif\<close> chain);
  \<open>input_ids\<close> is a tensor and is split; \<open>choice_groupings\<close> holds the row ranges
  \<open>(q * num_choices, (q + 1) * num_choices)\<close>.
\<close>

definition choice_groupings_of :: "nat \<Rightarrow> nat \<Rightarrow> elem list" where
  "choice_groupings_of N Q = map (\<lambda>q. ETuple (q * N) ((q + 1) * N)) [0..<Q]"

definition entry_ok :: "mc_attrs \<Rightarrow> nat \<Rightarrow> string \<Rightarrow> bval \<Rightarrow> bool" where
  "entry_ok self Q k v =
     (k \<in> set (static_keys self) \<or>
      (case v of
         VTensor rs \<Rightarrow> k \<in> set (tensor_keys self) \<and> length rs = num_choices self * Q
       | VList xs \<Rightarrow>
           (if k \<in> set (list_of_tensors_keys self) then length xs = num_choices self * Q
            else if k \<in> set (list_of_tuples_keys self) then length xs = Q
            else k \<in> set (list_of_primitives self) \<and> length xs = Q)
       | _ \<Rightarrow> False))"

definition mc_batch_ok :: "mc_attrs \<Rightarrow> nat \<Rightarrow> batch \<Rightarrow> bool" where
  "mc_batch_ok self Q batch =
     (distinct (map fst batch)
      \<and> ''input_ids'' \<notin> set (static_keys self)
      \<and> (case map_of batch ''input_ids'' of Some (VTensor rs) \<Rightarrow> True | _ \<Rightarrow> False)
      \<and> map_of batch ''choice_groupings'' = Some (VList (choice_groupings_of (num_choices self) Q))
      \<and> (\<forall>(k, v) \<in> set batch. entry_ok self Q k v))"

text \<open>
  The value that microbatch \<open>i\<close> is expected to hold under the key \<open>k\<close> when the batch
  holds \<open>v\<close> and the microbatch size is \<open>n\<close>: a static value itself; of a tensor or a
  list of tensors the \<open>n * num_choices\<close> rows from row \<open>i * (n * num_choices)\<close> on; of
  another list the \<open>n\<close> entries from entry \<open>i * n\<close> on. \<open>microbatch_of\<close> is the whole
  microbatch: the split keys in the order of the batch, then the static keys.
\<close>

definition piece :: "mc_attrs \<Rightarrow> nat \<Rightarrow> nat \<Rightarrow> string \<Rightarrow> bval \<Rightarrow> bval" where
  "piece self n i k v =
     (if k \<in> set (static_keys self) then v
      else (case v of
              VTensor rs \<Rightarrow>
                VTensor (take (n * num_choices self) (drop (i * (n * num_choices self)) rs))
            | VList xs \<Rightarrow>
                (if k \<in> set (list_of_tensors_keys self)
                 then VList (take (n * num_choices self) (drop (i * (n * num_choices self)) xs))
                 else VList (take n (drop (i * n) xs)))
            | _ \<Rightarrow> v))"

definition microbatch_of :: "mc_attrs \<Rightarrow> nat \<Rightarrow> batch \<Rightarrow> nat \<Rightarrow> batch" where
  "microbatch_of self n batch i =
     map (\<lambda>(k, v). (k, piece self n i k v))
       (filter (\<lambda>(k, v). k \<notin> set (static_keys self)) batch
        @ filter (\<lambda>(k, v). k \<in> set (static_keys self)) batch)"

text \<open>The rows of a tensor and the entries of a list found under a key, if any.\<close>

fun tensor_rows :: "bval option \<Rightarrow> int list list" where
  "tensor_rows (Some (VTensor rs)) = rs"
| "tensor_rows v = []"

fun list_elems :: "bval option \<Rightarrow> elem list" where
  "list_elems (Some (VList xs)) = xs"
| "list_elems v = []"

section \<open>The token-counting collator wrapper\<close>

text \<open>
  \<open>LossGeneratingTokensCollatorWrapper\<close> of \<open>data/utils.py\<close>. The token-counting function
  returns \<open>Union[int, dict[str, int]]\<close>; both it and the base collator are parameters and
  may raise.
\<close>

datatype num_tokens = NumInt int | NumDict "(string \<times> int) list"

definition token_count_batch_keys :: "string list" where
  "token_count_batch_keys = [''input_ids'', ''attention_mask'', ''labels'', ''decoder_attention_mask'']"

text \<open>\<open>v[row:row + 1]\<close>: a slice of a tensor (by rows), a list or a string.\<close>

fun row_slice :: "bval \<Rightarrow> nat \<Rightarrow> error + bval" where
  "row_slice (VTensor rs) row = Inr (VTensor (take 1 (drop row rs)))"
| "row_slice (VList xs) row = Inr (VList (take 1 (drop row xs)))"
| "row_slice (VStr s) row = Inr (VStr (take 1 (drop row s)))"
| "row_slice v row = Inl TypeError"

text \<open>
  The inner loop: \<open>row_batch[key] = batch[key][row:row + 1]\<close> for every counting key that
  the batch has.
\<close>

fun row_batch_loop :: "batch \<Rightarrow> nat \<Rightarrow> string list \<Rightarrow> batch \<Rightarrow> error + batch" where
  "row_batch_loop batch row [] row_batch = Inr row_batch"
| "row_batch_loop batch row (key # keys) row_batch =
     (case map_of batch key of
        None \<Rightarrow> row_batch_loop batch row keys row_batch
      | Some v \<Rightarrow>
          (case row_slice v row of
             Inl e \<Rightarrow> Inl e
           | Inr s \<Rightarrow> row_batch_loop batch row keys (AList.update key s row_batch)))"

text \<open>\<open>d[key]\<close> on the dictionary a token-counting function may return.\<close>

definition py_getitem :: "(string \<times> int) list \<Rightarrow> string \<Rightarrow> error + int" where
  "py_getitem d key = (case map_of d key of None \<Rightarrow> Inl (KeyError key) | Some x \<Rightarrow> Inr x)"

text \<open>
  The loop over \<open>range(num_rows)\<close>, with \<open>output['total_tokens']\<close> and
  \<open>output['loss_generating_tokens']\<close> as the two accumulated lists.
\<close>

fun count_rows ::
  "(batch \<Rightarrow> error + num_tokens) \<Rightarrow> batch \<Rightarrow> nat list \<Rightarrow> int list \<times> int list
     \<Rightarrow> error + (int list \<times> int list)" where
  "count_rows token_counting_func batch [] output = Inr output"
| "count_rows token_counting_func batch (row # later) (total_tokens, loss_generating_tokens) =
     (case row_batch_loop batch row token_count_batch_keys [] of
        Inl e \<Rightarrow> Inl e
      | Inr row_batch \<Rightarrow>
          (case token_counting_func row_batch of
             Inl e \<Rightarrow> Inl e
           | Inr (NumDict d) \<Rightarrow>
               (case py_getitem d ''total'' of
                  Inl e \<Rightarrow> Inl e
                | Inr t \<Rightarrow>
                    (case py_getitem d ''loss_generating'' of
                       Inl e \<Rightarrow> Inl e
                     | Inr l \<Rightarrow>
                         count_rows token_counting_func batch later
                           (total_tokens @ [t], loss_generating_tokens @ [l])))
           | Inr (NumInt n) \<Rightarrow>
               count_rows token_counting_func batch later
                 (total_tokens @ [n], loss_generating_tokens @ [n])))"

text \<open>
  \<open>__call__\<close>: the base collator's batch, \<open>num_rows = batch['input_ids'].shape[0]\<close> (only a
  tensor has a shape), the loop, and the two assignments to the batch.
\<close>

definition LossGeneratingTokensCollatorWrapper_call ::
  "('ex list \<Rightarrow> error + batch) \<Rightarrow> (batch \<Rightarrow> error + num_tokens) \<Rightarrow> 'ex list \<Rightarrow> error + batch" where
  "LossGeneratingTokensCollatorWrapper_call base_collator token_counting_func examples =
     (case base_collator examples of
        Inl e \<Rightarrow> Inl e
      | Inr batch \<Rightarrow>
          (case map_of batch ''input_ids'' of
             None \<Rightarrow> Inl (KeyError ''input_ids'')
           | Some (VTensor rs) \<Rightarrow>
               (case count_rows token_counting_func batch [0..<length rs] ([], []) of
                  Inl e \<Rightarrow> Inl e
                | Inr (total_tokens, loss_generating_tokens) \<Rightarrow>
                    Inr (AList.update ''loss_generating_tokens''
                           (VList (map EInt loss_generating_tokens))
                           (AList.update ''total_tokens'' (VList (map EInt total_tokens)) batch)))
           | Some _ \<Rightarrow> Inl AttributeError))"

text \<open>
  For the statement of the wrapper's contract: the one-row batch that the counting
  function receives for a row, and the two counts read off its result.
\<close>

fun slice_of :: "bval \<Rightarrow> nat \<Rightarrow> bval" where
  "slice_of (VTensor rs) row = VTensor (take 1 (drop row rs))"
| "slice_of (VList xs) row = VList (take 1 (drop row xs))"
| "slice_of (VStr s) row = VStr (take 1 (drop row s))"
| "slice_of v row = v"

definition single_row :: "batch \<Rightarrow> nat \<Rightarrow> batch" where
  "single_row batch row =
     concat (map (\<lambda>key. case map_of batch key of None \<Rightarrow> [] | Some v \<Rightarrow> [(key, slice_of v row)])
               token_count_batch_keys)"

fun total_of :: "num_tokens \<Rightarrow> int option" where
  "total_of (NumInt n) = Some n"
| "total_of (NumDict d) = map_of d ''total''"

fun loss_generating_of :: "num_tokens \<Rightarrow> int option" where
  "loss_generating_of (NumInt n) = Some n"
| "loss_generating_of (NumDict d) = map_of d ''loss_generating''"

section \<open>Configuration validation\<close>

text \<open>
  The entries of the dataset configuration dictionary that \<open>_validate_cfg\<close> reads. A key
  that is absent (or holds \<open>None\<close>) is \<open>None\<close>; \<open>dataset_cfg.pop(flag, False)\<close> removes the
  flag and treats an absent one as \<open>False\<close>.
\<close>

record dataset_cfg =
  cfg_eos_token_id :: "int option"
  cfg_bos_token_id :: "int option"
  cfg_override_eos_token_id_mismatch_error :: "bool option"
  cfg_override_bos_token_id_mismatch_error :: "bool option"
  cfg_max_seq_len :: "pynum option"

definition eos_mismatch_str :: string where
  "eos_mismatch_str = ''Provided eos_token_id does not match the eos_token_id of the tokenizer.''"

definition bos_mismatch_str :: string where
  "bos_mismatch_str = ''Provided bos_token_id does not match the bos_token_id of the tokenizer.''"

definition override_hint :: string where
  "override_hint = '' To override this error, set the override flag to True.''"

text \<open>
  \<open>_validate_cfg(dataset_cfg, tokenizer)\<close>, in the order of the source: the check of
  \<open>eos_token_id\<close>, the check of \<open>bos_token_id\<close>, the check of \<open>max_seq_len\<close>. The tokenizer
  enters through \<open>getattr(tokenizer, 'eos_token_id', None)\<close> and the same for \<open>bos\<close>. The
  result is the error raised, or the configuration as the function leaves it together
  with the warnings it logged.
\<close>

definition check_eos ::
  "dataset_cfg \<Rightarrow> int option \<Rightarrow> error + (dataset_cfg \<times> string list)" where
  "check_eos cfg tokenizer_eos_token_id =
     (if cfg_eos_token_id cfg \<noteq> None \<and> cfg_eos_token_id cfg \<noteq> tokenizer_eos_token_id then
        (if cfg_override_eos_token_id_mismatch_error cfg = Some True
         then Inr (cfg\<lparr>cfg_override_eos_token_id_mismatch_error := None\<rparr>, [eos_mismatch_str])
         else Inl (ValueError (eos_mismatch_str @ override_hint)))
      else Inr (cfg, []))"

definition check_bos ::
  "dataset_cfg \<Rightarrow> int option \<Rightarrow> error + (dataset_cfg \<times> string list)" where
  "check_bos cfg tokenizer_bos_token_id =
     (if cfg_bos_token_id cfg \<noteq> None \<and> cfg_bos_token_id cfg \<noteq> tokenizer_bos_token_id then
        (if cfg_override_bos_token_id_mismatch_error cfg = Some True
         then Inr (cfg\<lparr>cfg_override_bos_token_id_mismatch_error := None\<rparr>, [bos_mismatch_str])
         else Inl (ValueError (bos_mismatch_str @ override_hint)))
      else Inr (cfg, []))"

definition check_max_seq_len :: "dataset_cfg \<Rightarrow> error + dataset_cfg" where
  "check_max_seq_len cfg =
     (case cfg_max_seq_len cfg of
        None \<Rightarrow> Inr cfg
      | Some max_seq_len \<Rightarrow>
          (case py_int max_seq_len of
             Inl e \<Rightarrow> Inl e
           | Inr i \<Rightarrow>
               if py_ne_int max_seq_len i
               then Inl (ValueError ''max_seq_len must be an integer'')
               else Inr (cfg\<lparr>cfg_max_seq_len := Some (PyInt i)\<rparr>)))"

definition validate_cfg ::
  "dataset_cfg \<Rightarrow> int option \<Rightarrow> int option \<Rightarrow> error + (dataset_cfg \<times> string list)" where
  "validate_cfg cfg tokenizer_eos_token_id tokenizer_bos_token_id =
     (case check_eos cfg tokenizer_eos_token_id of
        Inl e \<Rightarrow> Inl e
      | Inr (cfg1, warnings1) \<Rightarrow>
          (case check_bos cfg1 tokenizer_bos_token_id of
             Inl e \<Rightarrow> Inl e
           | Inr (cfg2, warnings2) \<Rightarrow>
               (case check_max_seq_len cfg2 of
                  Inl e \<Rightarrow> Inl e
                | Inr cfg3 \<Rightarrow> Inr (cfg3, warnings1 @ warnings2))))"

text \<open>The conditions of the claim, on the configuration and the tokenizer.\<close>

definition eos_mismatch :: "dataset_cfg \<Rightarrow> int option \<Rightarrow> bool" where
  "eos_mismatch cfg tok = (cfg_eos_token_id cfg \<noteq> None \<and> cfg_eos_token_id cfg \<noteq> tok)"

definition bos_mismatch :: "dataset_cfg \<Rightarrow> int option \<Rightarrow> bool" where
  "bos_mismatch cfg tok = (cfg_bos_token_id cfg \<noteq> None \<and> cfg_bos_token_id cfg \<noteq> tok)"

definition max_seq_len_not_integer :: "dataset_cfg \<Rightarrow> bool" where
  "max_seq_len_not_integer cfg =
     (case cfg_max_seq_len cfg of None \<Rightarrow> False | Some x \<Rightarrow> \<not> integer_valued x)"

section \<open>The generation variant: longest answer and padding size\<close>






text \<open>
  The attributes of the generation dataset object that \<open>read_dataset\<close> reads and writes,
  and the warnings it logs.
\<close>

record generation_dataset =
  max_seq_len :: int
  padding_size :: int
  max_answer_length :: int
  has_cot :: bool
  cot_delimiter :: string
  log_warnings :: "string list"













section \<open>Effective batch size\<close>

lemma max_div_self:
  fixes N n :: int
  assumes "0 < N"
  shows "1 \<le> max N n div N"
proof -
  have "N div N \<le> max N n div N"
    using assms by (intro zdiv_mono1) auto
  with assms show ?thesis by simp
qed

lemma div_lt_two:
  fixes M a :: int
  assumes "0 < M" and "a < 2 * M"
  shows "a div M < 2"
proof (rule ccontr)
  assume "\<not> a div M < 2"
  then have "2 \<le> a div M" by simp
  then have "M * 2 \<le> M * (a div M)"
    using assms(1) by (intro mult_left_mono) auto
  moreover have "M * (a div M) + a mod M = a" by simp
  moreover have "0 \<le> a mod M" using assms(1) by simp
  ultimately show False using assms(2) by linarith
qed

text \<open>
  C3. For the multiple-choice and the schema variant with a positive number of choices
  \<open>N\<close>, \<open>get_effective_batch_size n\<close> returns \<open>max N n // N\<close>, the floor of the quotient,
  for every batch size \<open>n\<close> (in particular every non-negative one); the base class and the
  language-modelling and generation variants return \<open>n\<close> itself.
\<close>

theorem get_effective_batch_size_value:
  assumes "0 < num_choices self"
  shows "get_effective_batch_size (InContextLearningMultipleChoiceTaskDataset self) n
           = Inr (max (int (num_choices self)) n div int (num_choices self))
       \<and> get_effective_batch_size (InContextLearningSchemaTaskDataset self) n
           = Inr (max (int (num_choices self)) n div int (num_choices self))
       \<and> get_effective_batch_size InContextLearningDataset n = Inr n
       \<and> get_effective_batch_size InContextLearningLMTaskDataset n = Inr n
       \<and> get_effective_batch_size (InContextLearningGenerationTaskWithAnswersDataset g) n = Inr n"
  using assms by (simp add: py_floordiv_def)

theorem get_effective_batch_size_value_witness:
  "0 < num_choices (multiple_choice_init 0 True [] 4)
   \<and> get_effective_batch_size
        (InContextLearningMultipleChoiceTaskDataset (multiple_choice_init 0 True [] 4)) 10 = Inr 2
   \<and> get_effective_batch_size
        (InContextLearningSchemaTaskDataset (multiple_choice_init 0 True [] 4)) 10 = Inr 2
   \<and> get_effective_batch_size InContextLearningDataset 10 = Inr 10"
  using get_effective_batch_size_value [of "multiple_choice_init 0 True [] 4" 10]
  by (simp add: multiple_choice_init_def)

text \<open>
  C4, as stated, fails: with four choices a requested batch size of 8 gives 2, and
  applying the function to 2 gives 1.
\<close>

theorem get_effective_batch_size_not_idempotent:
  "get_effective_batch_size
     (InContextLearningMultipleChoiceTaskDataset (multiple_choice_init 0 True [] 4)) 8 = Inr 2
   \<and> get_effective_batch_size
     (InContextLearningMultipleChoiceTaskDataset (multiple_choice_init 0 True [] 4)) 2 = Inr 1"
  by (simp add: py_floordiv_def multiple_choice_init_def)

text \<open>
  C4, amended. For the multiple-choice and the schema variant with \<open>N > 0\<close> choices and every
  positive \<open>n\<close>: the first application returns \<open>r = max N n // N\<close>, the second application
  returns \<open>max N r // N\<close>, and the two agree exactly when \<open>N = 1\<close> or \<open>n < 2 * N\<close>.
\<close>

theorem get_effective_batch_size_reapplied:
  assumes "multi_choice ds = Some self" and "0 < num_choices self" and "0 < n"
  shows "\<exists>r r'. get_effective_batch_size ds n = Inr r
             \<and> get_effective_batch_size ds r = Inr r'
             \<and> r = max (int (num_choices self)) n div int (num_choices self)
             \<and> (r' = r \<longleftrightarrow> num_choices self = 1 \<or> n < 2 * int (num_choices self))"
proof -
  define N where "N = num_choices self"
  define M where "M = int N"
  define r where "r = max M n div M"
  define r' where "r' = max M r div M"
  have M: "0 < M" using assms(2) by (simp add: M_def N_def)
  have r1: "1 \<le> r" unfolding r_def using M by (rule max_div_self)
  have first: "get_effective_batch_size ds n = Inr r"
    using assms(1) M by (cases ds) (auto simp: py_floordiv_def r_def M_def N_def)
  have second: "get_effective_batch_size ds r = Inr r'"
    using assms(1) M by (cases ds) (auto simp: py_floordiv_def r'_def M_def N_def)
  have iff: "r' = r \<longleftrightarrow> N = 1 \<or> n < 2 * M"
  proof (cases "M = 1")
    case True
    then have "r' = r" using r1 by (simp add: r'_def max_def)
    with True show ?thesis by (simp add: M_def)
  next
    case False
    with M have M2: "2 \<le> M" by simp
    have N1: "N \<noteq> 1" using False by (simp add: M_def)
    show ?thesis
    proof (cases "n < 2 * M")
      case True
      have "max M n < 2 * M" using True M by simp
      then have "max M n div M < 2"
        using M by (intro div_lt_two)
      then have "r = 1" using r1 by (simp add: r_def)
      then have "r' = r" using M2 by (simp add: r'_def max_def)
      with True show ?thesis by simp
    next
      case False
      then have "2 * M \<le> max M n" by simp
      then have "2 * M div M \<le> max M n div M"
        using M by (intro zdiv_mono1) auto
      then have r2: "2 \<le> r" using M by (simp add: r_def)
      have "r' < r"
      proof (cases "r \<le> M")
        case True
        then have "r' = 1" using M by (simp add: r'_def max_def)
        with r2 show ?thesis by simp
      next
        case False
        then have "r' = r div M" by (simp add: r'_def max_def)
        moreover have "r div M < r"
          using r2 M2 by (intro int_div_less_self) auto
        ultimately show ?thesis by simp
      qed
      with False N1 show ?thesis by simp
    qed
  qed
  from first second iff show ?thesis
    unfolding r_def M_def N_def by blast
qed

theorem get_effective_batch_size_reapplied_witness:
  "multi_choice (InContextLearningSchemaTaskDataset (schema_init 0 True 4))
      = Some (schema_init 0 True 4)
   \<and> 0 < num_choices (schema_init 0 True 4) \<and> (0::int) < 7
   \<and> get_effective_batch_size (InContextLearningSchemaTaskDataset (schema_init 0 True 4)) 7 = Inr 1
   \<and> get_effective_batch_size (InContextLearningSchemaTaskDataset (schema_init 0 True 4)) 1 = Inr 1"
  using get_effective_batch_size_reapplied
          [of "InContextLearningSchemaTaskDataset (schema_init 0 True 4)" "schema_init 0 True 4" 7]
  by (simp add: py_floordiv_def schema_init_def multiple_choice_init_def)

section \<open>Stripping the end-of-sequence token\<close>

text \<open>
  C7, as stated, fails: a preamble that is the single end-of-sequence token is returned
  as it is.
\<close>

theorem fix_eos_on_preamble_single_eos_kept:
  "fix_eos_on_preamble (Some 2) [2] = [2]"
  by (simp add: fix_eos_on_preamble_def)

text \<open>
  C7, amended. The final token is removed exactly when the tokenizer has an
  end-of-sequence id, the preamble has more than one token and its last token is that
  id: a preamble \<open>pre @ [e]\<close> with non-empty \<open>pre\<close> becomes \<open>pre\<close>. Every other preamble,
  the one-token preamble \<open>[e]\<close> among them, is returned unchanged.
\<close>

theorem fix_eos_on_preamble_spec:
  "(pre \<noteq> [] \<longrightarrow> fix_eos_on_preamble (Some e) (pre @ [e]) = pre)
   \<and> fix_eos_on_preamble (Some e) [e] = [e]
   \<and> fix_eos_on_preamble None ids = ids
   \<and> (ids = [] \<or> last ids \<noteq> e \<longrightarrow> fix_eos_on_preamble (Some e) ids = ids)
   \<and> (fix_eos_on_preamble eos ids \<noteq> ids
        \<longleftrightarrow> (\<exists>pre. pre \<noteq> [] \<and> ids = pre @ [the eos] \<and> eos \<noteq> None))"
proof -
  have a: "pre \<noteq> [] \<longrightarrow> fix_eos_on_preamble (Some e) (pre @ [e]) = pre"
    by (cases pre) (simp_all add: fix_eos_on_preamble_def)
  have b: "fix_eos_on_preamble (Some e) [e] = [e]"
    by (simp add: fix_eos_on_preamble_def)
  have c: "fix_eos_on_preamble None ids = ids"
    by (simp add: fix_eos_on_preamble_def)
  have d: "ids = [] \<or> last ids \<noteq> e \<longrightarrow> fix_eos_on_preamble (Some e) ids = ids"
    by (auto simp: fix_eos_on_preamble_def)
  have e: "fix_eos_on_preamble eos ids \<noteq> ids
        \<longleftrightarrow> (\<exists>pre. pre \<noteq> [] \<and> ids = pre @ [the eos] \<and> eos \<noteq> None)"
  proof
    assume neq: "fix_eos_on_preamble eos ids \<noteq> ids"
    then have c1: "eos \<noteq> None" and c2: "length ids > 1" and c3: "Some (last ids) = eos"
      by (auto simp: fix_eos_on_preamble_def split: if_splits)
    from c2 have ne: "ids \<noteq> []" by auto
    then have "ids = butlast ids @ [last ids]" by simp
    moreover have "butlast ids \<noteq> []"
      using c2 by (cases ids) (auto split: if_splits)
    moreover have "last ids = the eos" using c3 by (cases eos) auto
    ultimately show "\<exists>pre. pre \<noteq> [] \<and> ids = pre @ [the eos] \<and> eos \<noteq> None"
      using c1 by metis
  next
    assume "\<exists>pre. pre \<noteq> [] \<and> ids = pre @ [the eos] \<and> eos \<noteq> None"
    then obtain pre where p: "pre \<noteq> []" "ids = pre @ [the eos]" "eos \<noteq> None" by blast
    then have "fix_eos_on_preamble eos ids = pre"
      by (cases pre) (auto simp: fix_eos_on_preamble_def)
    with p show "fix_eos_on_preamble eos ids \<noteq> ids" by simp
  qed
  from a b c d e show ?thesis by blast
qed

theorem fix_eos_on_preamble_spec_witness:
  "fix_eos_on_preamble (Some 2) ([5, 7] @ [2]) = [5, 7]
   \<and> fix_eos_on_preamble (Some 2) [5, 7] = [5, 7]"
  using fix_eos_on_preamble_spec [of "[5, 7]" 2 "[5, 7]" "Some 2"]
  by simp

section \<open>Validation of the dataset configuration\<close>

lemma py_int_not_integer:
  assumes ni: "\<not> integer_valued x"
  shows "(\<exists>e. py_int x = Inl e) \<or> (\<exists>i. py_int x = Inr i \<and> py_ne_int x i)"
proof (cases x)
  case (PyInt n) with ni show ?thesis by simp
next
  case (PyFloat f)
  show ?thesis
  proof (cases f)
    case (Finite m e)
    with ni PyFloat have e: "e < 0" and nd: "\<not> 2 ^ nat (- e) dvd m" by auto
    define k where "k = nat (- e)"
    have ne1: "m \<noteq> (m div 2 ^ k) * 2 ^ k" using nd unfolding k_def
      by (metis dvd_triv_right)
    have ne2: "m \<noteq> (- ((- m) div 2 ^ k)) * 2 ^ k" using nd unfolding k_def
      by (metis dvd_triv_right)
    show ?thesis using e ne1 ne2 PyFloat Finite by (auto simp: k_def)
  qed (use PyFloat in auto)
qed

lemma py_int_integer:
  assumes iv: "integer_valued x"
  shows "\<exists>i. py_int x = Inr i \<and> \<not> py_ne_int x i"
proof (cases x)
  case (PyInt n) then show ?thesis by simp
next
  case (PyFloat f)
  show ?thesis
  proof (cases f)
    case (Finite m e)
    show ?thesis
    proof (cases "0 \<le> e")
      case True
      then show ?thesis using PyFloat Finite by simp
    next
      case False
      with iv PyFloat Finite have d: "2 ^ nat (- e) dvd m" by simp
      then have d': "2 ^ nat (- e) dvd - m" by simp
      have "m div 2 ^ nat (- e) * 2 ^ nat (- e) = m" using d by simp
      moreover have "(- m) div 2 ^ nat (- e) * 2 ^ nat (- e) = - m" using d' by simp
      ultimately show ?thesis using False PyFloat Finite by auto
    qed
  qed (use iv PyFloat in auto)
qed

lemma check_max_seq_len_error:
  "max_seq_len_not_integer cfg \<Longrightarrow> \<exists>e. check_max_seq_len cfg = Inl e"
  using py_int_not_integer
  by (fastforce simp: max_seq_len_not_integer_def check_max_seq_len_def split: option.splits sum.splits)

lemma check_max_seq_len_ok:
  "\<not> max_seq_len_not_integer cfg \<Longrightarrow> \<exists>cfg'. check_max_seq_len cfg = Inr cfg'"
  using py_int_integer
  by (fastforce simp: max_seq_len_not_integer_def check_max_seq_len_def split: option.splits sum.splits)

lemma check_eos_keeps:
  "check_eos cfg t = Inr (cfg', w) \<Longrightarrow>
     cfg_bos_token_id cfg' = cfg_bos_token_id cfg
   \<and> cfg_override_bos_token_id_mismatch_error cfg' = cfg_override_bos_token_id_mismatch_error cfg
   \<and> cfg_max_seq_len cfg' = cfg_max_seq_len cfg"
  by (auto simp: check_eos_def split: if_splits)

lemma check_bos_keeps:
  "check_bos cfg t = Inr (cfg', w) \<Longrightarrow> cfg_max_seq_len cfg' = cfg_max_seq_len cfg"
  by (auto simp: check_bos_def split: if_splits)

text \<open>
  C9. A configured \<open>eos_token_id\<close> that differs from the tokenizer's raises the
  \<open>ValueError\<close> at once unless \<open>override_eos_token_id_mismatch_error\<close> is set; a
  configured \<open>bos_token_id\<close> that differs raises a \<open>ValueError\<close> unless
  \<open>override_bos_token_id_mismatch_error\<close> is set (the one for \<open>eos\<close> when that check has
  already failed); a \<open>max_seq_len\<close> without an integer value always ends in an error,
  whatever the flags; and when every mismatch has its flag set and \<open>max_seq_len\<close> is
  absent or integer-valued, the function returns, having logged exactly one warning per
  mismatch.
\<close>

theorem validate_cfg_errors:
  "(eos_mismatch cfg te \<and> cfg_override_eos_token_id_mismatch_error cfg \<noteq> Some True
      \<longrightarrow> validate_cfg cfg te tb = Inl (ValueError (eos_mismatch_str @ override_hint)))
   \<and> (bos_mismatch cfg tb \<and> cfg_override_bos_token_id_mismatch_error cfg \<noteq> Some True
      \<longrightarrow> validate_cfg cfg te tb = Inl (ValueError (eos_mismatch_str @ override_hint))
        \<or> validate_cfg cfg te tb = Inl (ValueError (bos_mismatch_str @ override_hint)))
   \<and> (max_seq_len_not_integer cfg \<longrightarrow> (\<exists>e. validate_cfg cfg te tb = Inl e))
   \<and> ((eos_mismatch cfg te \<longrightarrow> cfg_override_eos_token_id_mismatch_error cfg = Some True)
      \<and> (bos_mismatch cfg tb \<longrightarrow> cfg_override_bos_token_id_mismatch_error cfg = Some True)
      \<and> \<not> max_seq_len_not_integer cfg
      \<longrightarrow> (\<exists>cfg'. validate_cfg cfg te tb =
             Inr (cfg', (if eos_mismatch cfg te then [eos_mismatch_str] else [])
                      @ (if bos_mismatch cfg tb then [bos_mismatch_str] else []))))"
proof (intro conjI impI)
  assume "eos_mismatch cfg te \<and> cfg_override_eos_token_id_mismatch_error cfg \<noteq> Some True"
  then show "validate_cfg cfg te tb = Inl (ValueError (eos_mismatch_str @ override_hint))"
    by (simp add: validate_cfg_def check_eos_def eos_mismatch_def)
next
  assume a: "bos_mismatch cfg tb \<and> cfg_override_bos_token_id_mismatch_error cfg \<noteq> Some True"
  show "validate_cfg cfg te tb = Inl (ValueError (eos_mismatch_str @ override_hint))
        \<or> validate_cfg cfg te tb = Inl (ValueError (bos_mismatch_str @ override_hint))"
  proof (cases "check_eos cfg te")
    case (Inl e)
    then show ?thesis by (auto simp: validate_cfg_def check_eos_def split: if_splits)
  next
    case (Inr p)
    obtain cfg1 w1 where p: "p = (cfg1, w1)" by (cases p)
    from check_eos_keeps[OF Inr[unfolded p]] a
    have "check_bos cfg1 tb = Inl (ValueError (bos_mismatch_str @ override_hint))"
      by (simp add: check_bos_def bos_mismatch_def)
    then show ?thesis using Inr p by (simp add: validate_cfg_def)
  qed
next
  assume a: "max_seq_len_not_integer cfg"
  show "\<exists>e. validate_cfg cfg te tb = Inl e"
  proof (cases "check_eos cfg te")
    case (Inl e)
    then show ?thesis by (simp add: validate_cfg_def)
  next
    case (Inr p)
    obtain cfg1 w1 where p: "p = (cfg1, w1)" by (cases p)
    show ?thesis
    proof (cases "check_bos cfg1 tb")
      case (Inl e)
      then show ?thesis using Inr p by (simp add: validate_cfg_def)
    next
      case r2: (Inr p2)
      obtain cfg2 w2 where p2: "p2 = (cfg2, w2)" by (cases p2)
      have "cfg_max_seq_len cfg2 = cfg_max_seq_len cfg"
        using check_eos_keeps[OF Inr[unfolded p]] check_bos_keeps[OF r2[unfolded p2]] by simp
      then have "max_seq_len_not_integer cfg2"
        using a by (simp add: max_seq_len_not_integer_def)
      then obtain e where "check_max_seq_len cfg2 = Inl e"
        using check_max_seq_len_error by blast
      then show ?thesis using Inr p r2 p2 by (simp add: validate_cfg_def)
    qed
  qed
next
  assume a: "(eos_mismatch cfg te \<longrightarrow> cfg_override_eos_token_id_mismatch_error cfg = Some True)
      \<and> (bos_mismatch cfg tb \<longrightarrow> cfg_override_bos_token_id_mismatch_error cfg = Some True)
      \<and> \<not> max_seq_len_not_integer cfg"
  let ?w1 = "if eos_mismatch cfg te then [eos_mismatch_str] else []"
  let ?w2 = "if bos_mismatch cfg tb then [bos_mismatch_str] else []"
  have "\<exists>cfg1. check_eos cfg te = Inr (cfg1, ?w1)"
  proof (cases "eos_mismatch cfg te")
    case True
    with a show ?thesis by (simp add: check_eos_def eos_mismatch_def)
  next
    case False
    then show ?thesis by (simp add: check_eos_def eos_mismatch_def)
  qed
  then obtain cfg1 where c1: "check_eos cfg te = Inr (cfg1, ?w1)" by blast
  note k1 = check_eos_keeps[OF c1]
  have "\<exists>cfg2. check_bos cfg1 tb = Inr (cfg2, ?w2)"
  proof (cases "bos_mismatch cfg tb")
    case True
    with a k1 show ?thesis by (simp add: check_bos_def bos_mismatch_def)
  next
    case False
    with k1 show ?thesis by (simp add: check_bos_def bos_mismatch_def)
  qed
  then obtain cfg2 where c2: "check_bos cfg1 tb = Inr (cfg2, ?w2)" by blast
  note k2 = check_bos_keeps[OF c2]
  have "\<not> max_seq_len_not_integer cfg2"
    using a k1 k2 by (simp add: max_seq_len_not_integer_def)
  then obtain cfg3 where c3: "check_max_seq_len cfg2 = Inr cfg3"
    using check_max_seq_len_ok by blast
  show "\<exists>cfg'. validate_cfg cfg te tb = Inr (cfg', ?w1 @ ?w2)"
    using c1 c2 c3 by (simp add: validate_cfg_def)
qed

theorem validate_cfg_errors_witness:
  "eos_mismatch \<lparr>cfg_eos_token_id = Some 0, cfg_bos_token_id = Some 1,
       cfg_override_eos_token_id_mismatch_error = None,
       cfg_override_bos_token_id_mismatch_error = Some False,
       cfg_max_seq_len = Some (PyFloat (Finite 5 (- 1)))\<rparr> (Some 2)
   \<and> bos_mismatch \<lparr>cfg_eos_token_id = Some 0, cfg_bos_token_id = Some 1,
       cfg_override_eos_token_id_mismatch_error = None,
       cfg_override_bos_token_id_mismatch_error = Some False,
       cfg_max_seq_len = Some (PyFloat (Finite 5 (- 1)))\<rparr> None
   \<and> max_seq_len_not_integer \<lparr>cfg_eos_token_id = Some 0, cfg_bos_token_id = Some 1,
       cfg_override_eos_token_id_mismatch_error = None,
       cfg_override_bos_token_id_mismatch_error = Some False,
       cfg_max_seq_len = Some (PyFloat (Finite 5 (- 1)))\<rparr>
   \<and> validate_cfg \<lparr>cfg_eos_token_id = Some 0, cfg_bos_token_id = Some 1,
       cfg_override_eos_token_id_mismatch_error = None,
       cfg_override_bos_token_id_mismatch_error = Some False,
       cfg_max_seq_len = Some (PyFloat (Finite 5 (- 1)))\<rparr> (Some 2) None
     = Inl (ValueError (eos_mismatch_str @ override_hint))
   \<and> validate_cfg \<lparr>cfg_eos_token_id = Some 0, cfg_bos_token_id = Some 1,
       cfg_override_eos_token_id_mismatch_error = Some True,
       cfg_override_bos_token_id_mismatch_error = Some True,
       cfg_max_seq_len = Some (PyFloat (Finite 2048 0))\<rparr> (Some 2) None
     = Inr (\<lparr>cfg_eos_token_id = Some 0, cfg_bos_token_id = Some 1,
       cfg_override_eos_token_id_mismatch_error = None,
       cfg_override_bos_token_id_mismatch_error = None,
       cfg_max_seq_len = Some (PyInt 2048)\<rparr>, [eos_mismatch_str, bos_mismatch_str])"
  using validate_cfg_errors
          [of "\<lparr>cfg_eos_token_id = Some 0, cfg_bos_token_id = Some 1,
                cfg_override_eos_token_id_mismatch_error = None,
                cfg_override_bos_token_id_mismatch_error = Some False,
                cfg_max_seq_len = Some (PyFloat (Finite 5 (- 1)))\<rparr>" "Some 2" None]
        validate_cfg_errors
          [of "\<lparr>cfg_eos_token_id = Some 0, cfg_bos_token_id = Some 1,
                cfg_override_eos_token_id_mismatch_error = Some True,
                cfg_override_bos_token_id_mismatch_error = Some True,
                cfg_max_seq_len = Some (PyFloat (Finite 2048 0))\<rparr>" "Some 2" None]
  by (simp add: eos_mismatch_def bos_mismatch_def max_seq_len_not_integer_def
        validate_cfg_def check_eos_def check_bos_def check_max_seq_len_def)

section \<open>Longest answer and padding size of the generation variant\<close>













section \<open>The shape of a collated multiple-choice batch\<close>

lemma mc_base_batch_collating:
  "mc_base_batch gk = collating [] [] [] [] []
     (if gk = [] then [] else [(''generation_kwargs'', VKwargs gk)])"
  by (simp add: mc_base_batch_def collating_def)

lemma py_append_collating:
  "py_append ''input_ids'' x (collating I C L G P extra) = Inr (collating (I @ [x]) C L G P extra)"
  "py_append ''continuation_indices'' x (collating I C L G P extra)
     = Inr (collating I (C @ [x]) L G P extra)"
  "py_append ''labels'' x (collating I C L G P extra) = Inr (collating I C (L @ [x]) G P extra)"
  "py_append ''gold_indices'' x (collating I C L G P extra)
     = Inr (collating I C L (G @ [x]) P extra)"
  "py_append ''choice_groupings'' x (collating I C L G P extra)
     = Inr (collating I C L G (P @ [x]) extra)"
  by (simp_all add: collating_def)

lemma py_len_of_collating:
  "py_len_of ''continuation_indices'' (collating I C L G P extra) = Inr (length C)"
  by (simp add: py_len_of_def collating_def)

lemma append_choices_collating:
  assumes "i0 + length ctx \<le> length ci"
  shows "append_choices ci (enumerate i0 ctx) (collating I C L G P extra)
         = Inr (collating (I @ map ETokens ctx)
                  (C @ map ETokens (take (length ctx) (drop i0 ci)))
                  (L @ map ETokens ctx) G P extra)"
  using assms
proof (induction ctx arbitrary: i0 I C L)
  case Nil
  show ?case by simp
next
  case (Cons x xs)
  from Cons.prems have lt: "i0 < length ci" and le: "Suc i0 + length xs \<le> length ci" by simp_all
  have tk: "take (Suc (length xs)) (drop i0 ci) = ci ! i0 # take (length xs) (drop (Suc i0) ci)"
    using lt by (simp add: Cons_nth_drop_Suc [symmetric])
  show ?case
    using lt by (simp add: py_append_collating Cons.IH [OF le] tk)
qed

lemma collate_loop_collating:
  assumes "\<forall>r \<in> set data. length (tok_context r) = N \<and> length (tok_continuation_indices r) = N"
  shows "collate_loop data (collating I C L G P extra)
         = Inr (collating
                  (I @ map ETokens (concat (map tok_context data)))
                  (C @ map ETokens (concat (map tok_continuation_indices data)))
                  (L @ map ETokens (concat (map tok_context data)))
                  (G @ map (\<lambda>r. EInt (tok_gold r)) data)
                  (P @ map (\<lambda>q. ETuple (length C + q * N) (length C + (q + 1) * N))
                         [0..<length data])
                  extra)"
  using assms
proof (induction data arbitrary: I C L G P)
  case Nil
  show ?case by simp
next
  case (Cons r rs)
  from Cons.prems have ctx: "length (tok_context r) = N"
    and ci: "length (tok_continuation_indices r) = N"
    and rest: "\<forall>r \<in> set rs. length (tok_context r) = N \<and> length (tok_continuation_indices r) = N"
    by simp_all
  have inner: "append_choices (tok_continuation_indices r) (enumerate 0 (tok_context r))
                 (collating I C L G P extra)
               = Inr (collating (I @ map ETokens (tok_context r))
                        (C @ map ETokens (tok_continuation_indices r))
                        (L @ map ETokens (tok_context r)) G P extra)"
    using append_choices_collating [of 0 "tok_context r" "tok_continuation_indices r" I C L G P extra]
      ctx ci by simp
  have groups: "map (\<lambda>q. ETuple (length C + q * N) (length C + (N + q * N))) [0..<Suc (length rs)]
        = ETuple (length C) (length C + N)
          # map (\<lambda>q. ETuple (length C + (N + q * N)) (length C + (N + (N + q * N)))) [0..<length rs]"
    by (simp add: map_upt_Suc del: upt_Suc)
  show ?case
    by (simp add: py_len_of_collating inner py_append_collating Cons.IH [OF rest] ci groups
          add.assoc del: upt_Suc)
qed

lemma tokens_of_map_ETokens: "tokens_of (map ETokens ts) = Some ts"
  by (induction ts) simp_all

lemma convert_key_ok:
  assumes "map_of b k = Some v" and "f v = Inr v'"
  shows "convert_key k f b = Inr (AList.update k v' b)"
  using assms by (simp add: convert_key_def)


lemma length_concat_const:
  assumes "\<forall>r \<in> set data. length (f r) = N"
  shows "length (concat (map f data)) = N * length data"
  using assms by (induction data) simp_all

lemma collate_fn_collating:
  assumes bb: "base_batch self = mc_base_batch gk"
      and recs: "\<forall>r \<in> set data. length (tok_context r) = N
                   \<and> length (tok_continuation_indices r) = N"
  shows "\<exists>batch. collate_fn self data = Inr batch
         \<and> map_of batch ''input_ids'' = Some (VTensor (concat (map tok_context data)))
         \<and> map_of batch ''choice_groupings''
             = Some (VList (map (\<lambda>q. ETuple (q * N) ((q + 1) * N)) [0..<length data]))
         \<and> map_of batch ''gold_indices'' = Some (VList (map (\<lambda>r. EInt (tok_gold r)) data))"
proof -
  define extra :: batch where "extra = (if gk = [] then [] else [(''generation_kwargs'', VKwargs gk)])"
  define rows where "rows = concat (map tok_context data)"
  define cis where "cis = concat (map tok_continuation_indices data)"
  define G where "G = map (\<lambda>r. EInt (tok_gold r)) data"
  define P where "P = map (\<lambda>q. ETuple (q * N) ((q + 1) * N)) [0..<length data]"
  define B0 where "B0 = collating (map ETokens rows) (map ETokens cis) (map ETokens rows) G P extra"
  have loop: "collate_loop data (base_batch self) = Inr B0"
    using collate_loop_collating [OF recs, of "[]" "[]" "[]" "[]" "[]" extra]
    by (simp add: bb mc_base_batch_collating extra_def B0_def rows_def cis_def G_def P_def)
  have B0: "map_of B0 ''input_ids'' = Some (VList (map ETokens rows))"
       "map_of B0 ''labels'' = Some (VList (map ETokens rows))"
       "map_of B0 ''continuation_indices'' = Some (VList (map ETokens cis))"
       "map_of B0 ''choice_groupings'' = Some (VList P)"
       "map_of B0 ''gold_indices'' = Some (VList G)"
    by (simp_all add: B0_def collating_def)
  define B1 where "B1 = AList.update ''input_ids'' (VTensor rows) B0"
  have c1: "convert_key ''input_ids'' to_tensor B0 = Inr B1"
    unfolding B1_def by (rule convert_key_ok [OF B0(1)]) (simp add: tokens_of_map_ETokens)
  have B1: "map_of B1 ''input_ids'' = Some (VTensor rows)"
       "map_of B1 ''labels'' = Some (VList (map ETokens rows))"
       "map_of B1 ''continuation_indices'' = Some (VList (map ETokens cis))"
       "map_of B1 ''choice_groupings'' = Some (VList P)"
       "map_of B1 ''gold_indices'' = Some (VList G)"
    by (simp_all add: B1_def update_conv' B0)
  define B2 where "B2 = AList.update ''labels'' (VTensor rows) B1"
  have c2: "convert_key ''labels'' to_tensor B1 = Inr B2"
    unfolding B2_def by (rule convert_key_ok [OF B1(2)]) (simp add: tokens_of_map_ETokens)
  have B2: "map_of B2 ''input_ids'' = Some (VTensor rows)"
       "map_of B2 ''continuation_indices'' = Some (VList (map ETokens cis))"
       "map_of B2 ''choice_groupings'' = Some (VList P)"
       "map_of B2 ''gold_indices'' = Some (VList G)"
    by (simp_all add: B2_def update_conv' B1)
  define B3 where "B3 = AList.update ''continuation_indices'' (VList (map ETensor cis)) B2"
  have c3: "convert_key ''continuation_indices'' to_tensor_list B2 = Inr B3"
    unfolding B3_def by (rule convert_key_ok [OF B2(2)]) (simp add: tokens_of_map_ETokens)
  have B3: "map_of B3 ''input_ids'' = Some (VTensor rows)"
       "map_of B3 ''choice_groupings'' = Some (VList P)"
       "map_of B3 ''gold_indices'' = Some (VList G)"
    by (simp_all add: B3_def update_conv' B2)
  define B' where "B' = (if tokenize_labels self then B3 else B1)"
  have conv: "convert_tokens_to_tensors B0 (tokenize_labels self) = Inr B'"
    by (simp add: convert_tokens_to_tensors_def c1 c2 c3 B'_def)
  have B': "map_of B' ''input_ids'' = Some (VTensor rows)"
       "map_of B' ''choice_groupings'' = Some (VList P)"
       "map_of B' ''gold_indices'' = Some (VList G)"
    by (simp_all add: B'_def B1 B3)
  define B where "B = AList.update ''attention_mask''
                        (VTensor (attention_mask_of (pad_tok_id self) rows)) B'"
  have res: "collate_fn self data = Inr B"
    by (simp add: collate_fn_def loop conv B'(1) B_def)
  have "map_of B ''input_ids'' = Some (VTensor rows)"
       "map_of B ''choice_groupings'' = Some (VList P)"
       "map_of B ''gold_indices'' = Some (VList G)"
    by (simp_all add: B_def update_conv' B')
  with res show ?thesis
    unfolding rows_def P_def G_def by blast
qed

text \<open>
  C2. For every list of \<open>Q\<close> tokenized multiple-choice records that each carry \<open>N\<close>
  contexts (and the \<open>N\<close> continuation spans that go with them), \<open>collate_fn\<close> on the class's
  \<open>base_batch\<close> returns a batch whose \<open>input_ids\<close> tensor has the \<open>N * Q\<close> contexts as its
  rows, in order; \<open>choice_groupings\<close> and \<open>gold_indices\<close> have \<open>Q\<close> entries, the \<open>q\<close>-th
  grouping is \<open>(q * N, (q + 1) * N)\<close> and the \<open>q\<close>-th gold index is the record's.
\<close>

theorem collate_fn_shape:
  assumes "base_batch self = mc_base_batch gk"
      and "\<forall>r \<in> set data. length (tok_context r) = N \<and> length (tok_continuation_indices r) = N"
  shows "\<exists>batch rows groups golds.
           collate_fn self data = Inr batch
         \<and> map_of batch ''input_ids'' = Some (VTensor rows)
         \<and> length rows = N * length data
         \<and> rows = concat (map tok_context data)
         \<and> map_of batch ''choice_groupings'' = Some (VList groups)
         \<and> length groups = length data
         \<and> (\<forall>q < length data. groups ! q = ETuple (q * N) ((q + 1) * N))
         \<and> map_of batch ''gold_indices'' = Some (VList golds)
         \<and> length golds = length data
         \<and> golds = map (\<lambda>r. EInt (tok_gold r)) data"
proof -
  from collate_fn_collating [OF assms] obtain batch where
    b: "collate_fn self data = Inr batch"
       "map_of batch ''input_ids'' = Some (VTensor (concat (map tok_context data)))"
       "map_of batch ''choice_groupings''
             = Some (VList (map (\<lambda>q. ETuple (q * N) ((q + 1) * N)) [0..<length data]))"
       "map_of batch ''gold_indices'' = Some (VList (map (\<lambda>r. EInt (tok_gold r)) data))"
    by blast
  have len: "length (concat (map tok_context data)) = N * length data"
    using assms(2) by (intro length_concat_const) simp
  show ?thesis
    using b len by (intro exI conjI) (assumption | simp)+
qed

theorem collate_fn_shape_witness:
  "base_batch (multiple_choice_init 0 True [] 2) = mc_base_batch []
   \<and> length [[1, 2, 0], [1, 3, 0::int]] = 2 \<and> length [[4, 5, 6], [4, 7, 0::int]] = 2
   \<and> collate_fn (multiple_choice_init 0 True [] 2)
       [\<lparr>tok_context = [[1, 2, 0], [1, 3, 0]], tok_continuation_indices = [[1], [1]],
         tok_gold = 0\<rparr>,
        \<lparr>tok_context = [[4, 5, 6], [4, 7, 0]], tok_continuation_indices = [[1, 2], [1]],
         tok_gold = 1\<rparr>]
     = Inr [(''input_ids'', VTensor [[1, 2, 0], [1, 3, 0], [4, 5, 6], [4, 7, 0]]),
            (''continuation_indices'', VList [ETensor [1], ETensor [1], ETensor [1, 2], ETensor [1]]),
            (''mode'', VStr ''icl_task''),
            (''labels'', VTensor [[1, 2, 0], [1, 3, 0], [4, 5, 6], [4, 7, 0]]),
            (''gold_indices'', VList [EInt 0, EInt 1]),
            (''choice_groupings'', VList [ETuple 0 2, ETuple 2 4]),
            (''attention_mask'', VTensor [[1, 1, 0], [1, 1, 0], [1, 1, 1], [1, 1, 0]])]"
  using collate_fn_shape [of "multiple_choice_init 0 True [] 2" "[]"
      "[\<lparr>tok_context = [[1, 2, 0], [1, 3, 0]], tok_continuation_indices = [[1], [1]],
         tok_gold = 0\<rparr>,
        \<lparr>tok_context = [[4, 5, 6], [4, 7, 0]], tok_continuation_indices = [[1, 2], [1]],
         tok_gold = 1\<rparr>]" 2]
  by (simp add: multiple_choice_init_def mc_base_batch_def collate_fn_def py_len_of_def
        enumerate_eq_zip convert_tokens_to_tensors_def convert_key_def attention_mask_of_def)

section \<open>Errors of batch splitting\<close>

text \<open>
  C5. Whatever the class and whatever the batch, \<open>split_batch\<close> with a floating-point
  microbatch size raises a \<open>ValueError\<close>: the generation and the multiple-choice class
  (and the schema class through it) test the size first, and the base class (and the
  language-modelling class through it) hands the batch to the library's
  \<open>_default_split_batch\<close>, which rejects it.
\<close>

theorem split_batch_rejects_float:
  "\<exists>msg. split_batch ds batch (MFloat f) = Inl (ValueError msg)"
  by (cases ds)
     (simp_all add: default_split_batch_mapping_def split_batch_gen_def split_batch_mc_def
        float_size_error_def)

theorem split_batch_rejects_float_witness:
  "split_batch InContextLearningDataset [(''input_ids'', VTensor [[1, 2], [3, 4]])]
     (MFloat (Finite 3 (- 1)))
     = Inl (ValueError ''_default_split_batch does not support floating point microbatch_size.'')
   \<and> split_batch (InContextLearningGenerationTaskWithAnswersDataset generation_init)
        [(''input_ids'', VTensor [[1, 2], [3, 4]])] (MFloat (Finite 2 0)) = Inl float_size_error
   \<and> split_batch (InContextLearningSchemaTaskDataset (schema_init 0 True 2))
        [(''input_ids'', VTensor [[1, 2], [3, 4]])] (MFloat (Finite 2 0)) = Inl float_size_error"
  using split_batch_rejects_float [of InContextLearningDataset
          "[(''input_ids'', VTensor [[1, 2], [3, 4]])]" "Finite 3 (- 1)"]
  by (simp add: default_split_batch_mapping_def split_batch_gen_def split_batch_mc_def)

lemma chunk_loop_first_error:
  assumes "(k, v) \<in> set batch" and "f k v = Inl e0"
  shows "\<exists>k' v' e. (k', v') \<in> set batch \<and> f k' v' = Inl e \<and> chunk_loop f batch chunked = Inl e"
  using assms
proof (induction batch arbitrary: chunked)
  case Nil
  then show ?case by simp
next
  case (Cons p rest)
  obtain k1 v1 where p: "p = (k1, v1)" by (cases p)
  show ?case
  proof (cases "f k1 v1")
    case (Inl e)
    then show ?thesis using p by auto
  next
    case (Inr r)
    with Cons.prems p have "(k, v) \<in> set rest" by auto
    from Cons.IH [OF this Cons.prems(2)]
    have ih: "\<And>c. \<exists>k' v' e. (k', v') \<in> set rest \<and> f k' v' = Inl e \<and> chunk_loop f rest c = Inl e" .
    show ?thesis
    proof (cases r)
      case None
      from ih [of chunked] show ?thesis using p Inr None by auto
    next
      case (Some c)
      from ih [of "AList.update k1 c chunked"] show ?thesis using p Inr Some by auto
    qed
  qed
qed

lemma chunk_loop_skip_static:
  assumes "\<forall>(k, v) \<in> set pre. f k v = Inr None"
  shows "chunk_loop f (pre @ rest) chunked = chunk_loop f rest chunked"
  using assms by (induction pre) auto

lemma chunk_loop_reaches:
  assumes "\<forall>(k', v') \<in> set pre. f k' v' = Inr None" and "f k v = Inl e"
  shows "chunk_loop f (pre @ (k, v) # post) [] = Inl e"
  using assms by (simp add: chunk_loop_skip_static)

lemma range_chunks_pos: "0 < n \<Longrightarrow> \<exists>c. range_chunks C xs n = Inr c"
  by (simp add: range_chunks_def)

lemma split_list_ok: "0 < n \<Longrightarrow> tensor_or_list v \<Longrightarrow> \<exists>c. split_list v n = Inr c"
  by (cases v) (simp_all add: range_chunks_def)

lemma split_tensor_ok: "0 < n \<Longrightarrow> \<exists>c. split_tensor rs n = Inr c"
  by (simp add: split_tensor_def)

lemma default_split_batch_ok:
  "0 < n \<Longrightarrow> tensor_or_list v \<Longrightarrow> \<exists>c. default_split_batch v (MInt n) = Inr c"
  by (cases v) (simp_all add: default_split_batch_def split_tensor_def range_chunks_def)

lemma map_sum_Some_ok: "\<exists>c. m = Inr c \<Longrightarrow> \<exists>r. map_sum id Some m = Inr r"
  by auto

lemma chunk_value_mc_cases:
  assumes "0 < n" and "0 < num_choices self"
      and "k \<in> recognized_keys_mc self - set (static_keys self) \<longrightarrow> tensor_or_list v"
  shows "(\<exists>r. chunk_value_mc self n k v = Inr r)
       \<or> chunk_value_mc self n k v = Inl (unexpected_key_in_list k)
       \<or> chunk_value_mc self n k v = Inl (unexpected_key_in_batch k)"
proof -
  have pos: "0 < n * int (num_choices self)" using assms(1,2) by simp
  show ?thesis
  proof (cases "k \<in> set (static_keys self)")
    case True
    then show ?thesis by (simp add: chunk_value_mc_def)
  next
    case ns: False
    show ?thesis
    proof (cases "is_list v")
      case True
      then have tl: "tensor_or_list v" by (cases v) simp_all
      show ?thesis
        using ns True split_list_ok [OF pos tl] split_list_ok [OF assms(1) tl]
          default_split_batch_ok [OF assms(1) tl]
        by (auto simp: chunk_value_mc_def)
    next
      case nl: False
      show ?thesis
      proof (cases "k \<in> set (tensor_keys self)")
        case True
        with ns assms(3) have tl: "tensor_or_list v" by (simp add: recognized_keys_mc_def)
        show ?thesis
          using ns nl True default_split_batch_ok [OF pos tl]
          by (auto simp: chunk_value_mc_def)
      next
        case False
        with ns nl show ?thesis by (simp add: chunk_value_mc_def)
      qed
    qed
  qed
qed

lemma chunk_value_mc_unrecognized:
  assumes "k \<notin> recognized_keys_mc self"
  shows "chunk_value_mc self n k v = Inl (unexpected_key_in_list k)
       \<or> chunk_value_mc self n k v = Inl (unexpected_key_in_batch k)"
  using assms by (simp add: chunk_value_mc_def recognized_keys_mc_def)

lemma chunk_value_gen_cases:
  assumes "0 < n"
      and "k \<in> set (list_keys self) \<union> set (tensor_keys self) - set (static_keys self)
             \<longrightarrow> tensor_or_list v"
  shows "(\<exists>r. chunk_value_gen self n k v = Inr r)
       \<or> chunk_value_gen self n k v = Inl (unexpected_key_in_batch k)"
  using assms split_list_ok [OF assms(1), of v] default_split_batch_ok [OF assms(1), of v]
  by (auto simp: chunk_value_gen_def)

lemma chunk_value_gen_unrecognized:
  assumes "k \<notin> set (static_keys self) \<union> set (list_keys self) \<union> set (tensor_keys self)"
  shows "chunk_value_gen self n k v = Inl (unexpected_key_in_batch k)"
  using assms by (simp add: chunk_value_gen_def)


lemma split_batch_mc_loop_error:
  "chunk_loop (chunk_value_mc self n) batch [] = Inl e \<Longrightarrow> split_batch_mc self batch (MInt n) = Inl e"
  by (simp add: split_batch_mc_def)

lemma split_batch_gen_loop_error:
  "chunk_loop (chunk_value_gen self n) batch [] = Inl e \<Longrightarrow> split_batch_gen self batch (MInt n) = Inl e"
  by (simp add: split_batch_gen_def)

lemma split_batch_mc_unexpected:
  assumes kv: "(k, v) \<in> set batch" and k: "k \<notin> recognized_keys_mc self"
  shows "(\<exists>e. split_batch_mc self batch (MInt n) = Inl e)
       \<and> (0 < n \<and> 0 < num_choices self
            \<and> (\<forall>(k', v') \<in> set batch.
                  k' \<in> recognized_keys_mc self - set (static_keys self) \<longrightarrow> tensor_or_list v')
          \<longrightarrow> (\<exists>k' v'. (k', v') \<in> set batch
                \<and> (split_batch_mc self batch (MInt n) = Inl (unexpected_key_in_list k')
                   \<or> split_batch_mc self batch (MInt n) = Inl (unexpected_key_in_batch k'))))
       \<and> (\<forall>pre post. batch = pre @ (k, v) # post
              \<and> (\<forall>(k', v') \<in> set pre. k' \<in> set (static_keys self))
            \<longrightarrow> split_batch_mc self batch (MInt n) = Inl (unexpected_key_in_list k)
              \<or> split_batch_mc self batch (MInt n) = Inl (unexpected_key_in_batch k))"
proof -
  from chunk_value_mc_unrecognized [OF k, of n v]
  obtain e0 where e0: "chunk_value_mc self n k v = Inl e0"
    and e0k: "e0 = unexpected_key_in_list k \<or> e0 = unexpected_key_in_batch k" by blast
  have first: "split_batch_mc self batch (MInt n) = Inl e0"
    if b: "batch = pre @ (k, v) # post"
      and st: "\<forall>(k', v') \<in> set pre. k' \<in> set (static_keys self)" for pre post
  proof -
    have "\<forall>(k', v') \<in> set pre. chunk_value_mc self n k' v' = Inr None"
      using st by (auto simp: chunk_value_mc_def)
    from chunk_loop_reaches [where f = "chunk_value_mc self n", OF this e0]
    show ?thesis unfolding b by (rule split_batch_mc_loop_error)
  qed
  from chunk_loop_first_error [where f = "chunk_value_mc self n" and chunked = "[]", OF kv e0]
  obtain k' v' e where f: "(k', v') \<in> set batch" "chunk_value_mc self n k' v' = Inl e"
    "chunk_loop (chunk_value_mc self n) batch [] = Inl e" by blast
  have r: "split_batch_mc self batch (MInt n) = Inl e"
    using f(3) by (rule split_batch_mc_loop_error)
  have "e = unexpected_key_in_list k' \<or> e = unexpected_key_in_batch k'"
    if h: "0 < n \<and> 0 < num_choices self
            \<and> (\<forall>(k', v') \<in> set batch.
                  k' \<in> recognized_keys_mc self - set (static_keys self) \<longrightarrow> tensor_or_list v')"
  proof -
    from h f(1) have "k' \<in> recognized_keys_mc self - set (static_keys self) \<longrightarrow> tensor_or_list v'"
      by blast
    from chunk_value_mc_cases [OF _ _ this, of n] h f(2) show ?thesis by auto
  qed
  with r f(1) have ab: "(\<exists>e. split_batch_mc self batch (MInt n) = Inl e)
       \<and> (0 < n \<and> 0 < num_choices self
            \<and> (\<forall>(k', v') \<in> set batch.
                  k' \<in> recognized_keys_mc self - set (static_keys self) \<longrightarrow> tensor_or_list v')
          \<longrightarrow> (\<exists>k' v'. (k', v') \<in> set batch
                \<and> (split_batch_mc self batch (MInt n) = Inl (unexpected_key_in_list k')
                   \<or> split_batch_mc self batch (MInt n) = Inl (unexpected_key_in_batch k'))))"
    by blast
  from first e0k have c: "\<forall>pre post. batch = pre @ (k, v) # post
              \<and> (\<forall>(k', v') \<in> set pre. k' \<in> set (static_keys self))
            \<longrightarrow> split_batch_mc self batch (MInt n) = Inl (unexpected_key_in_list k)
              \<or> split_batch_mc self batch (MInt n) = Inl (unexpected_key_in_batch k)"
    by blast
  from ab c show ?thesis by (rule conjI [THEN conj_assoc [THEN iffD1]])
qed

lemma split_batch_gen_unexpected:
  assumes kv: "(k, v) \<in> set batch"
      and k: "k \<notin> set (static_keys self) \<union> set (list_keys self) \<union> set (tensor_keys self)"
  shows "(\<exists>e. split_batch_gen self batch (MInt n) = Inl e)
       \<and> (0 < n
            \<and> (\<forall>(k', v') \<in> set batch.
                  k' \<in> set (static_keys self) \<union> set (list_keys self) \<union> set (tensor_keys self)
                        - set (static_keys self) \<longrightarrow> tensor_or_list v')
          \<longrightarrow> (\<exists>k' v'. (k', v') \<in> set batch
                \<and> split_batch_gen self batch (MInt n) = Inl (unexpected_key_in_batch k')))
       \<and> (\<forall>pre post. batch = pre @ (k, v) # post
              \<and> (\<forall>(k', v') \<in> set pre. k' \<in> set (static_keys self))
            \<longrightarrow> split_batch_gen self batch (MInt n) = Inl (unexpected_key_in_batch k))"
proof -
  from chunk_value_gen_unrecognized [OF k, of n v]
  have e0: "chunk_value_gen self n k v = Inl (unexpected_key_in_batch k)" .
  have first: "split_batch_gen self batch (MInt n) = Inl (unexpected_key_in_batch k)"
    if b: "batch = pre @ (k, v) # post"
      and st: "\<forall>(k', v') \<in> set pre. k' \<in> set (static_keys self)" for pre post
  proof -
    have "\<forall>(k', v') \<in> set pre. chunk_value_gen self n k' v' = Inr None"
      using st by (auto simp: chunk_value_gen_def)
    from chunk_loop_reaches [where f = "chunk_value_gen self n", OF this e0]
    show ?thesis unfolding b by (rule split_batch_gen_loop_error)
  qed
  from chunk_loop_first_error [where f = "chunk_value_gen self n" and chunked = "[]", OF kv e0]
  obtain k' v' e where f: "(k', v') \<in> set batch" "chunk_value_gen self n k' v' = Inl e"
    "chunk_loop (chunk_value_gen self n) batch [] = Inl e" by blast
  have r: "split_batch_gen self batch (MInt n) = Inl e"
    using f(3) by (rule split_batch_gen_loop_error)
  have "e = unexpected_key_in_batch k'"
    if h: "0 < n
            \<and> (\<forall>(k', v') \<in> set batch.
                  k' \<in> set (static_keys self) \<union> set (list_keys self) \<union> set (tensor_keys self)
                        - set (static_keys self) \<longrightarrow> tensor_or_list v')"
  proof -
    from h f(1) have "k' \<in> set (list_keys self) \<union> set (tensor_keys self) - set (static_keys self)
                        \<longrightarrow> tensor_or_list v'"
      by blast
    from chunk_value_gen_cases [OF _ this, of n] h f(2) show ?thesis by auto
  qed
  with r f(1) have ab: "(\<exists>e. split_batch_gen self batch (MInt n) = Inl e)
       \<and> (0 < n
            \<and> (\<forall>(k', v') \<in> set batch.
                  k' \<in> set (static_keys self) \<union> set (list_keys self) \<union> set (tensor_keys self)
                        - set (static_keys self) \<longrightarrow> tensor_or_list v')
          \<longrightarrow> (\<exists>k' v'. (k', v') \<in> set batch
                \<and> split_batch_gen self batch (MInt n) = Inl (unexpected_key_in_batch k')))"
    by blast
  from first have c: "\<forall>pre post. batch = pre @ (k, v) # post
              \<and> (\<forall>(k', v') \<in> set pre. k' \<in> set (static_keys self))
            \<longrightarrow> split_batch_gen self batch (MInt n) = Inl (unexpected_key_in_batch k)"
    by blast
  from ab c show ?thesis by (rule conjI [THEN conj_assoc [THEN iffD1]])
qed

text \<open>
  C6, as stated, fails: with a microbatch size of 0 the multiple-choice class hands the
  tensor under \<open>input_ids\<close>, which comes first in the batch, to the splitter of the
  library, and the error of that splitter ends \<open>split_batch\<close> before the loop reaches
  the unexpected key \<open>bogus\<close>. The error is not a \<open>ValueError\<close>.
\<close>

theorem split_batch_zero_size_other_error:
  "split_batch (InContextLearningMultipleChoiceTaskDataset (multiple_choice_init 0 True [] 2))
     [(''input_ids'', VTensor [[1, 2], [3, 4]]), (''bogus'', VStr ''x'')] (MInt 0)
     = Inl RuntimeError"
  by (simp add: multiple_choice_init_def split_batch_mc_def chunk_value_mc_def
        default_split_batch_def split_tensor_def)

text \<open>
  C6, amended. Let a batch contain a key that is neither static nor in any of the list
  and tensor classifications of the class (generation, multiple-choice or schema). Then
  for every integer microbatch size \<open>split_batch\<close> raises an error and returns no
  microbatch. The error is the \<open>ValueError\<close> for that unexpected key, for every integer
  size, when only static keys come before the key in the batch; and it is the
  \<open>ValueError\<close> for an unexpected key of the batch for every positive size (and a
  positive \<open>num_choices\<close>) when the recognized non-static keys of the batch hold tensors
  or lists.
\<close>

theorem split_batch_unexpected_key:
  assumes "recognized_keys ds = Some R" and "(k, v) \<in> set batch" and "k \<notin> R"
  shows "(\<exists>e. split_batch ds batch (MInt n) = Inl e)
       \<and> (0 < n \<and> 0 < row_multiplier ds
            \<and> (\<forall>(k', v') \<in> set batch. k' \<in> R - static_keys_of ds \<longrightarrow> tensor_or_list v')
          \<longrightarrow> (\<exists>k' v'. (k', v') \<in> set batch
                \<and> (split_batch ds batch (MInt n) = Inl (unexpected_key_in_list k')
                   \<or> split_batch ds batch (MInt n) = Inl (unexpected_key_in_batch k'))))
       \<and> (\<forall>pre post. batch = pre @ (k, v) # post
              \<and> (\<forall>(k', v') \<in> set pre. k' \<in> static_keys_of ds)
            \<longrightarrow> split_batch ds batch (MInt n) = Inl (unexpected_key_in_list k)
              \<or> split_batch ds batch (MInt n) = Inl (unexpected_key_in_batch k))"
proof (cases ds)
  case InContextLearningDataset
  with assms(1) show ?thesis by simp
next
  case InContextLearningLMTaskDataset
  with assms(1) show ?thesis by simp
next
  case (InContextLearningGenerationTaskWithAnswersDataset self)
  with assms(1) have R: "R = set (static_keys self) \<union> set (list_keys self) \<union> set (tensor_keys self)"
    by simp
  from split_batch_gen_unexpected [OF assms(2) assms(3) [unfolded R], of n]
  show ?thesis
    unfolding InContextLearningGenerationTaskWithAnswersDataset R by auto
next
  case (InContextLearningMultipleChoiceTaskDataset self)
  with assms(1) have R: "R = recognized_keys_mc self" by simp
  from split_batch_mc_unexpected [OF assms(2) assms(3) [unfolded R], of n]
  show ?thesis
    unfolding InContextLearningMultipleChoiceTaskDataset R by simp
next
  case (InContextLearningSchemaTaskDataset self)
  with assms(1) have R: "R = recognized_keys_mc self" by simp
  from split_batch_mc_unexpected [OF assms(2) assms(3) [unfolded R], of n]
  show ?thesis
    unfolding InContextLearningSchemaTaskDataset R by simp
qed

theorem split_batch_unexpected_key_witness:
  "recognized_keys (InContextLearningMultipleChoiceTaskDataset (multiple_choice_init 0 True [] 2))
     = Some (recognized_keys_mc (multiple_choice_init 0 True [] 2))
   \<and> ''bogus'' \<notin> recognized_keys_mc (multiple_choice_init 0 True [] 2)
   \<and> tensor_or_list (VTensor [[1, 2], [3, 4]]) \<and> (0::int) < 1
   \<and> 0 < row_multiplier
           (InContextLearningMultipleChoiceTaskDataset (multiple_choice_init 0 True [] 2))
   \<and> split_batch (InContextLearningMultipleChoiceTaskDataset (multiple_choice_init 0 True [] 2))
        [(''input_ids'', VTensor [[1, 2], [3, 4]]), (''mode'', VStr ''icl_task''),
         (''bogus'', VStr ''x'')] (MInt 1)
     = Inl (unexpected_key_in_batch ''bogus'')"
  using split_batch_unexpected_key
    [of "InContextLearningMultipleChoiceTaskDataset (multiple_choice_init 0 True [] 2)"
        "recognized_keys_mc (multiple_choice_init 0 True [] 2)" "''bogus''" "VStr ''x''"
        "[(''input_ids'', VTensor [[1, 2], [3, 4]]), (''mode'', VStr ''icl_task''),
          (''bogus'', VStr ''x'')]" 1]
  by (simp add: recognized_keys_mc_def multiple_choice_init_def split_batch_mc_def
        chunk_value_mc_def default_split_batch_def split_tensor_def chunks.simps)

section \<open>The frame of the token-counting wrapper\<close>

lemma row_slice_ok: "tensor_or_list v \<Longrightarrow> row_slice v row = Inr (slice_of v row)"
  by (cases v) simp_all

lemma update_fresh: "k \<notin> fst ` set al \<Longrightarrow> AList.update k v al = al @ [(k, v)]"
  by (induction al) auto

lemma row_batch_loop_ok:
  assumes "\<forall>key \<in> set keys. \<forall>v. map_of batch key = Some v \<longrightarrow> tensor_or_list v"
      and "distinct keys" and "fst ` set acc \<inter> set keys = {}"
  shows "row_batch_loop batch row keys acc
         = Inr (acc @ concat (map (\<lambda>key. case map_of batch key of None \<Rightarrow> []
                                       | Some v \<Rightarrow> [(key, slice_of v row)]) keys))"
  using assms
proof (induction keys arbitrary: acc)
  case Nil
  show ?case by simp
next
  case (Cons key keys)
  show ?case
  proof (cases "map_of batch key")
    case None
    have "fst ` set acc \<inter> set keys = {}" using Cons.prems(3) by auto
    with Cons None show ?thesis by simp
  next
    case (Some v)
    with Cons.prems(1) have tl: "tensor_or_list v" by simp
    have fresh: "key \<notin> fst ` set acc" using Cons.prems(3) by auto
    have disj: "fst ` set (acc @ [(key, slice_of v row)]) \<inter> set keys = {}"
      using Cons.prems(2,3) by auto
    have "row_batch_loop batch row keys (acc @ [(key, slice_of v row)])
          = Inr ((acc @ [(key, slice_of v row)])
                 @ concat (map (\<lambda>key. case map_of batch key of None \<Rightarrow> []
                                       | Some v \<Rightarrow> [(key, slice_of v row)]) keys))"
      using Cons.prems(1,2) by (intro Cons.IH disj) simp_all
    then show ?thesis
      using Some by (simp add: row_slice_ok [OF tl] update_fresh [OF fresh])
  qed
qed

lemma row_batch_single_row:
  assumes "\<forall>key \<in> set token_count_batch_keys. \<forall>v. map_of batch key = Some v \<longrightarrow> tensor_or_list v"
  shows "row_batch_loop batch row token_count_batch_keys [] = Inr (single_row batch row)"
proof -
  have "distinct token_count_batch_keys" by (simp add: token_count_batch_keys_def)
  from row_batch_loop_ok [OF assms this, of "[]" row] show ?thesis
    by (simp add: single_row_def)
qed


lemma count_rows_ok:
  assumes sl: "\<forall>key \<in> set token_count_batch_keys. \<forall>v. map_of batch key = Some v \<longrightarrow> tensor_or_list v"
      and ok: "\<forall>row \<in> set rws. \<exists>c t l. tcf (single_row batch row) = Inr c
                 \<and> total_of c = Some t \<and> loss_generating_of c = Some l"
  shows "\<exists>ts ls. count_rows tcf batch rws (tt, lgt) = Inr (tt @ ts, lgt @ ls)
           \<and> length ts = length rws \<and> length ls = length rws
           \<and> (\<forall>i < length rws. \<exists>c. tcf (single_row batch (rws ! i)) = Inr c
                  \<and> total_of c = Some (ts ! i) \<and> loss_generating_of c = Some (ls ! i))"
  using ok
proof (induction rws arbitrary: tt lgt)
  case Nil
  show ?case by simp
next
  case (Cons row rws)
  from Cons.prems obtain c t l where c: "tcf (single_row batch row) = Inr c"
    "total_of c = Some t" "loss_generating_of c = Some l" by auto
  have rest: "\<forall>row \<in> set rws. \<exists>c t l. tcf (single_row batch row) = Inr c
                 \<and> total_of c = Some t \<and> loss_generating_of c = Some l"
    using Cons.prems by simp
  from Cons.IH [OF rest, of "tt @ [t]" "lgt @ [l]"] obtain ts ls where
    ih: "count_rows tcf batch rws (tt @ [t], lgt @ [l]) = Inr ((tt @ [t]) @ ts, (lgt @ [l]) @ ls)"
        "length ts = length rws" "length ls = length rws"
        "\<forall>i < length rws. \<exists>c. tcf (single_row batch (rws ! i)) = Inr c
                  \<and> total_of c = Some (ts ! i) \<and> loss_generating_of c = Some (ls ! i)"
    by blast
  have step: "count_rows tcf batch (row # rws) (tt, lgt)
              = count_rows tcf batch rws (tt @ [t], lgt @ [l])"
    using c by (cases c) (simp_all add: row_batch_single_row [OF sl] py_getitem_def)
  have pt: "\<forall>i < length (row # rws). \<exists>c. tcf (single_row batch ((row # rws) ! i)) = Inr c
                  \<and> total_of c = Some ((t # ts) ! i) \<and> loss_generating_of c = Some ((l # ls) ! i)"
  proof (intro allI impI)
    fix i assume "i < length (row # rws)"
    then show "\<exists>c. tcf (single_row batch ((row # rws) ! i)) = Inr c
                  \<and> total_of c = Some ((t # ts) ! i) \<and> loss_generating_of c = Some ((l # ls) ! i)"
      using c ih(4) by (cases i) auto
  qed
  show ?case
    using step ih(1,2,3) pt by (intro exI [of _ "t # ts"] exI [of _ "l # ls"]) simp
qed

text \<open>
  C10. Let the base collator return a batch whose \<open>input_ids\<close> tensor has \<open>R\<close> rows, whose
  counting keys hold tensors or lists, and on whose single rows the token-counting
  function returns an integer or a dictionary with \<open>total\<close> and \<open>loss_generating\<close>. Then
  \<open>__call__\<close> returns the batch with \<open>total_tokens\<close> and \<open>loss_generating_tokens\<close> set to lists
  of length \<open>R\<close>, the entry for a row being what the counting function returns on the
  one-row batch of that row; every other key keeps its value, the keys of the result
  are those of the batch and these two, and when the batch did not have the two keys
  the result is the batch followed by them.
\<close>

theorem collator_wrapper_adds_counts:
  assumes "base_collator examples = Inr batch"
      and "map_of batch ''input_ids'' = Some (VTensor rs)"
      and "\<forall>key \<in> set token_count_batch_keys. \<forall>v. map_of batch key = Some v \<longrightarrow> tensor_or_list v"
      and "\<forall>row < length rs. \<exists>c t l. tcf (single_row batch row) = Inr c
             \<and> total_of c = Some t \<and> loss_generating_of c = Some l"
  shows "\<exists>out tt lgt.
           LossGeneratingTokensCollatorWrapper_call base_collator tcf examples = Inr out
         \<and> map_of out ''total_tokens'' = Some (VList (map EInt tt)) \<and> length tt = length rs
         \<and> map_of out ''loss_generating_tokens'' = Some (VList (map EInt lgt))
         \<and> length lgt = length rs
         \<and> (\<forall>row < length rs. \<exists>c. tcf (single_row batch row) = Inr c
               \<and> total_of c = Some (tt ! row) \<and> loss_generating_of c = Some (lgt ! row))
         \<and> (\<forall>k. k \<noteq> ''total_tokens'' \<and> k \<noteq> ''loss_generating_tokens''
               \<longrightarrow> map_of out k = map_of batch k)
         \<and> fst ` set out = fst ` set batch \<union> {''total_tokens'', ''loss_generating_tokens''}
         \<and> (''total_tokens'' \<notin> fst ` set batch \<and> ''loss_generating_tokens'' \<notin> fst ` set batch
               \<longrightarrow> out = batch @ [(''total_tokens'', VList (map EInt tt)),
                                   (''loss_generating_tokens'', VList (map EInt lgt))])"
proof -
  have ok: "\<forall>row \<in> set [0..<length rs]. \<exists>c t l. tcf (single_row batch row) = Inr c
                 \<and> total_of c = Some t \<and> loss_generating_of c = Some l"
    using assms(4) by simp
  from count_rows_ok [OF assms(3) ok, of "[]" "[]"] obtain tt lgt where
    cr: "count_rows tcf batch [0..<length rs] ([], []) = Inr (tt, lgt)"
        "length tt = length rs" "length lgt = length rs"
        "\<forall>i < length rs. \<exists>c. tcf (single_row batch ([0..<length rs] ! i)) = Inr c
                  \<and> total_of c = Some (tt ! i) \<and> loss_generating_of c = Some (lgt ! i)"
    by auto
  define b1 where "b1 = AList.update ''total_tokens'' (VList (map EInt tt)) batch"
  define out where "out = AList.update ''loss_generating_tokens'' (VList (map EInt lgt)) b1"
  have res: "LossGeneratingTokensCollatorWrapper_call base_collator tcf examples = Inr out"
    by (simp add: LossGeneratingTokensCollatorWrapper_call_def assms(1,2) cr(1) out_def b1_def)
  have m: "map_of out = (map_of batch)(''total_tokens'' \<mapsto> VList (map EInt tt),
                            ''loss_generating_tokens'' \<mapsto> VList (map EInt lgt))"
    by (simp add: out_def b1_def update_conv')
  have m1: "map_of out ''total_tokens'' = Some (VList (map EInt tt))"
    and m2: "map_of out ''loss_generating_tokens'' = Some (VList (map EInt lgt))"
    and frame: "\<forall>k. k \<noteq> ''total_tokens'' \<and> k \<noteq> ''loss_generating_tokens''
               \<longrightarrow> map_of out k = map_of batch k"
    by (simp_all add: m)
  have keys: "fst ` set out = fst ` set batch \<union> {''total_tokens'', ''loss_generating_tokens''}"
    by (auto simp: out_def b1_def dom_update)
  have pt: "\<forall>row < length rs. \<exists>c. tcf (single_row batch row) = Inr c
               \<and> total_of c = Some (tt ! row) \<and> loss_generating_of c = Some (lgt ! row)"
    using cr(4) by simp
  have app: "out = batch @ [(''total_tokens'', VList (map EInt tt)),
                           (''loss_generating_tokens'', VList (map EInt lgt))]"
    if "''total_tokens'' \<notin> fst ` set batch \<and> ''loss_generating_tokens'' \<notin> fst ` set batch"
  proof -
    have "b1 = batch @ [(''total_tokens'', VList (map EInt tt))]"
      unfolding b1_def using that by (intro update_fresh) simp
    moreover have "''loss_generating_tokens'' \<notin> fst ` set (batch @ [(''total_tokens'', VList (map EInt tt))])"
      using that by simp
    ultimately show ?thesis
      unfolding out_def by (simp add: update_fresh)
  qed
  from app have app': "''total_tokens'' \<notin> fst ` set batch \<and> ''loss_generating_tokens'' \<notin> fst ` set batch
               \<longrightarrow> out = batch @ [(''total_tokens'', VList (map EInt tt)),
                                   (''loss_generating_tokens'', VList (map EInt lgt))]"
    by (rule impI)
  show ?thesis
    by (rule exI [of _ out], rule exI [of _ tt], rule exI [of _ lgt], intro conjI)
       (fact res m1 m2 cr(2) cr(3) pt frame keys app')+
qed


theorem collator_wrapper_adds_counts_witness:
  "map_of [(''input_ids'', VTensor [[1, 2, 3], [4, 5, 6]]), (''labels'', VTensor [[1, 2, 3], [4, 5, 6]])]
      ''input_ids'' = Some (VTensor [[1, 2, 3], [4, 5, 6]])
   \<and> tensor_or_list (VTensor [[1, 2, 3], [4, 5, 6]])
   \<and> LossGeneratingTokensCollatorWrapper_call (\<lambda>examples. Inr examples)
        (\<lambda>b. case map_of b ''input_ids'' of
                Some (VTensor r) \<Rightarrow>
                  Inr (NumDict [(''total'', int (length (concat r))),
                                (''loss_generating'', int (length (concat r)) - 1)])
              | _ \<Rightarrow> Inl (ValueError ''no input_ids''))
        [(''input_ids'', VTensor [[1, 2, 3], [4, 5, 6]]), (''labels'', VTensor [[1, 2, 3], [4, 5, 6]])]
     = Inr [(''input_ids'', VTensor [[1, 2, 3], [4, 5, 6]]),
            (''labels'', VTensor [[1, 2, 3], [4, 5, 6]]),
            (''total_tokens'', VList [EInt 3, EInt 3]),
            (''loss_generating_tokens'', VList [EInt 2, EInt 2])]"
  using collator_wrapper_adds_counts
    [of "\<lambda>examples. Inr examples"
        "[(''input_ids'', VTensor [[1, 2, 3], [4, 5, 6]]), (''labels'', VTensor [[1, 2, 3], [4, 5, 6]])]"
        "[(''input_ids'', VTensor [[1, 2, 3], [4, 5, 6]]), (''labels'', VTensor [[1, 2, 3], [4, 5, 6]])]"
        "[[1, 2, 3], [4, 5, 6]]"
        "\<lambda>b. case map_of b ''input_ids'' of
                Some (VTensor r) \<Rightarrow>
                  Inr (NumDict [(''total'', int (length (concat r))),
                                (''loss_generating'', int (length (concat r)) - 1)])
              | _ \<Rightarrow> Inl (ValueError ''no input_ids'')"]
  by (simp add: LossGeneratingTokensCollatorWrapper_call_def token_count_batch_keys_def
        py_getitem_def upt_rec [of 0] upt_rec [of 1] upt_rec [of 2])

section \<open>Splitting a multiple-choice batch is a partition\<close>

lemma chunks_Nil [simp]: "chunks n [] = []"
  by (simp add: chunks.simps)

lemma chunks_zero [simp]: "chunks 0 xs = []"
  by (simp add: chunks.simps)

lemma chunks_step: "0 < n \<Longrightarrow> xs \<noteq> [] \<Longrightarrow> chunks n xs = take n xs # chunks n (drop n xs)"
  by (subst chunks.simps) simp

lemma concat_chunks: "0 < n \<Longrightarrow> concat (chunks n xs) = xs"
proof (induction n xs rule: chunks.induct)
  case (1 n xs)
  show ?case
  proof (cases "xs = []")
    case True
    then show ?thesis by simp
  next
    case False
    with 1 show ?thesis by (simp add: chunks_step)
  qed
qed

lemma chunks_nth_eq:
  "0 < n \<Longrightarrow> chunks n xs = map (\<lambda>i. take n (drop (i * n) xs)) [0..<length (chunks n xs)]"
proof (induction n xs rule: chunks.induct)
  case (1 n xs)
  show ?case
  proof (cases "xs = []")
    case True
    then show ?thesis by simp
  next
    case False
    have ih: "chunks n (drop n xs)
              = map (\<lambda>i. take n (drop (i * n) (drop n xs))) [0..<length (chunks n (drop n xs))]"
      using 1 False by simp
    have "map (\<lambda>i. take n (drop (i * n) xs)) [0..<Suc (length (chunks n (drop n xs)))]
          = take n xs # map (\<lambda>i. take n (drop (i * n) (drop n xs))) [0..<length (chunks n (drop n xs))]"
      by (simp add: map_upt_Suc add.commute del: upt_Suc)
    with ih show ?thesis
      using 1(2) False by (simp add: chunks_step del: upt_Suc)
  qed
qed

lemma length_chunks: "0 < n \<Longrightarrow> length (chunks n xs) = (length xs + n - 1) div n"
proof (induction n xs rule: chunks.induct)
  case (1 n xs)
  note n = \<open>0 < n\<close>
  show ?case
  proof (cases "xs = []")
    case True
    with n show ?thesis by simp
  next
    case False
    then have pos: "0 < length xs" by simp
    have step: "chunks n xs = take n xs # chunks n (drop n xs)"
      using n False by (rule chunks_step)
    have len: "length (chunks n xs) = Suc (length (chunks n (drop n xs)))"
      unfolding step by simp
    have ih: "length (chunks n (drop n xs)) = (length (drop n xs) + n - 1) div n"
      using 1 False by simp
    have R: "length xs + n - 1 = (length xs - 1) + n" using pos by arith
    have goal: "(length xs + n - 1) div n = Suc ((length xs - 1) div n)"
      unfolding R using n by (simp add: div_add_self2)
    show ?thesis
    proof (cases "length xs \<le> n")
      case True
      then have d: "drop n xs = []" by simp
      have "length xs - 1 < n" using pos True by arith
      then have "(length xs - 1) div n = 0" by simp
      with goal have "(length xs + n - 1) div n = Suc 0" by simp
      moreover have "length (chunks n xs) = Suc 0" unfolding len d by simp
      ultimately show ?thesis by simp
    next
      case False
      then have L: "length (drop n xs) + n - 1 = length xs - 1" by simp
      show ?thesis unfolding len ih L goal ..
    qed
  qed
qed

lemma length_chunks_scaled:
  "0 < n \<Longrightarrow> 0 < N \<Longrightarrow> length xs = N * length ys
     \<Longrightarrow> length (chunks (n * N) xs) = length (chunks n ys)"
proof (induction n ys arbitrary: xs rule: chunks.induct)
  case (1 n ys)
  show ?case
  proof (cases "ys = []")
    case True
    with 1(4) show ?thesis by simp
  next
    case False
    with 1(3,4) have ne: "xs \<noteq> []" by auto
    have "length (drop (n * N) xs) = N * length (drop n ys)"
      using 1(4) by (simp add: diff_mult_distrib2 mult.commute)
    from 1(1) [OF _ 1(2) 1(3) this] False 1(2)
    have "length (chunks (n * N) (drop (n * N) xs)) = length (chunks n (drop n ys))" by simp
    then show ?thesis
      using 1(2,3) False ne by (simp add: chunks_step)
  qed
qed

lemma concat_take_chunks:
  "0 < n \<Longrightarrow> concat (take i (chunks n xs)) = take (i * n) xs"
proof (induction n xs arbitrary: i rule: chunks.induct)
  case (1 n xs)
  show ?case
  proof (cases "xs = []")
    case True
    then show ?thesis by simp
  next
    case False
    show ?thesis
    proof (cases i)
      case 0
      then show ?thesis by simp
    next
      case (Suc j)
      have "concat (take j (chunks n (drop n xs))) = take (j * n) (drop n xs)"
        using 1 False by simp
      then have "concat (take i (chunks n xs)) = take n xs @ take (j * n) (drop n xs)"
        using Suc 1(2) False by (simp add: chunks_step)
      also have "\<dots> = take (n + j * n) xs"
        by (simp add: take_add)
      finally show ?thesis using Suc by simp
    qed
  qed
qed

lemma range_chunks_nat: "0 < m \<Longrightarrow> range_chunks C xs (int m) = Inr (map C (chunks m xs))"
  by (simp add: range_chunks_def)

lemma chunks_as_pieces:
  assumes "0 < m" and "length (chunks m xs) = c"
  shows "map C (chunks m xs) = map (\<lambda>i. C (take m (drop (i * m) xs))) [0..<c]"
proof -
  have "map C (chunks m xs) = map C (map (\<lambda>i. take m (drop (i * m) xs)) [0..<length (chunks m xs)])"
    using chunks_nth_eq [OF assms(1), of xs] by simp
  then show ?thesis using assms(2) by (simp add: comp_def)
qed

lemma length_chunks_rows:
  assumes "0 < n" and "0 < N" and "length xs = N * Q"
  shows "length (chunks (n * N) xs) = (Q + n - 1) div n"
proof -
  have "length xs = N * length [0..<Q]" using assms(3) by simp
  from length_chunks_scaled [OF assms(1,2) this]
  have "length (chunks (n * N) xs) = length (chunks n [0..<Q])" .
  then show ?thesis using length_chunks [OF assms(1), of "[0..<Q]"] by simp
qed

lemma chunk_value_mc_ok:
  assumes n: "0 < n" and N: "0 < num_choices self" and Q: "0 < Q"
      and ok: "entry_ok self Q k v" and ns: "k \<notin> set (static_keys self)"
  shows "chunk_value_mc self (int n) k v
         = Inr (Some (map (\<lambda>i. piece self n i k v) [0..<(Q + n - 1) div n]))"
proof -
  define m where "m = n * num_choices self"
  have m: "0 < m" using n N by (simp add: m_def)
  have im: "int n * int (num_choices self) = int m" by (simp add: m_def)
  show ?thesis
  proof (cases v)
    case (VTensor rs)
    with ok ns have tk: "k \<in> set (tensor_keys self)" and len: "length rs = num_choices self * Q"
      by (simp_all add: entry_ok_def)
    from len N Q have ne: "rs \<noteq> []" by auto
    have c: "length (chunks m rs) = (Q + n - 1) div n"
      unfolding m_def using n N len by (rule length_chunks_rows)
    have st: "split_tensor rs (int m) = Inr (map VTensor (chunks m rs))"
      using m ne by (simp add: split_tensor_def)
    have eq: "map VTensor (chunks m rs)
               = map (\<lambda>i. VTensor (take m (drop (i * m) rs))) [0..<(Q + n - 1) div n]"
      using m c by (rule chunks_as_pieces)
    have pc: "\<And>i. piece self n i k v = VTensor (take m (drop (i * m) rs))"
      using ns VTensor by (simp add: piece_def m_def)
    have "split_tensor rs (int m)
                  = Inr (map (\<lambda>i. piece self n i k v) [0..<(Q + n - 1) div n])"
      unfolding st eq pc ..
    then show ?thesis
      using ns tk VTensor by (simp add: chunk_value_mc_def default_split_batch_def im)
  next
    case (VList xs)
    show ?thesis
    proof (cases "k \<in> set (list_of_tensors_keys self)")
      case True
      with ok ns VList have len: "length xs = num_choices self * Q" by (simp add: entry_ok_def)
      have c: "length (chunks m xs) = (Q + n - 1) div n"
        unfolding m_def using n N len by (rule length_chunks_rows)
      have rc: "range_chunks VList xs (int m) = Inr (map VList (chunks m xs))"
        using m by (rule range_chunks_nat)
      have eq: "map VList (chunks m xs)
               = map (\<lambda>i. VList (take m (drop (i * m) xs))) [0..<(Q + n - 1) div n]"
        using m c by (rule chunks_as_pieces)
      have pc: "\<And>i. piece self n i k v = VList (take m (drop (i * m) xs))"
        using ns VList True by (simp add: piece_def m_def)
      have "range_chunks VList xs (int m)
                = Inr (map (\<lambda>i. piece self n i k v) [0..<(Q + n - 1) div n])"
        unfolding rc eq pc ..
      then show ?thesis
        using ns True VList by (simp add: chunk_value_mc_def im)
    next
      case False
      with ok ns VList have len: "length xs = Q"
        and cls: "k \<in> set (list_of_tuples_keys self) \<or> k \<in> set (list_of_primitives self)"
        by (auto simp: entry_ok_def split: if_splits)
      have c: "length (chunks n xs) = (Q + n - 1) div n"
        using length_chunks [OF n, of xs] len by simp
      have rc: "range_chunks VList xs (int n) = Inr (map VList (chunks n xs))"
        using n by (rule range_chunks_nat)
      have eq: "map VList (chunks n xs)
               = map (\<lambda>i. VList (take n (drop (i * n) xs))) [0..<(Q + n - 1) div n]"
        using n c by (rule chunks_as_pieces)
      have pc: "\<And>i. piece self n i k v = VList (take n (drop (i * n) xs))"
        using ns VList False by (simp add: piece_def)
      have "range_chunks VList xs (int n)
                = Inr (map (\<lambda>i. piece self n i k v) [0..<(Q + n - 1) div n])"
        unfolding rc eq pc ..
      then show ?thesis
        using ns False VList cls by (auto simp: chunk_value_mc_def default_split_batch_def)
    qed
  qed (use ok ns in \<open>simp_all add: entry_ok_def\<close>)
qed

lemma chunk_loop_exact:
  assumes "\<forall>(k, v) \<in> set batch. f k v = Inr (g k v)"
      and "distinct (map fst batch)"
      and "fst ` set acc \<inter> fst ` set batch = {}"
  shows "chunk_loop f batch acc
         = Inr (acc @ concat (map (\<lambda>(k, v). case g k v of None \<Rightarrow> [] | Some c \<Rightarrow> [(k, c)]) batch))"
  using assms
proof (induction batch arbitrary: acc)
  case Nil
  show ?case by simp
next
  case (Cons p rest)
  obtain k v where p: "p = (k, v)" by (cases p)
  from Cons.prems p have fk: "f k v = Inr (g k v)"
    and rest: "\<forall>(k, v) \<in> set rest. f k v = Inr (g k v)"
    and dist: "distinct (map fst rest)" and knr: "k \<notin> fst ` set rest"
    and fresh: "k \<notin> fst ` set acc" and disj: "fst ` set acc \<inter> fst ` set rest = {}"
    by auto
  show ?case
  proof (cases "g k v")
    case None
    with Cons.IH [OF rest dist disj] fk p show ?thesis by simp
  next
    case (Some c)
    have disj': "fst ` set (acc @ [(k, c)]) \<inter> fst ` set rest = {}"
      using disj knr by auto
    from Cons.IH [OF rest dist disj'] fk p Some show ?thesis
      by (simp add: update_fresh [OF fresh])
  qed
qed

lemma broadcast_loop_exact:
  assumes "distinct (map fst batch)"
      and "\<forall>(k, v) \<in> set batch. d k v \<longrightarrow> k \<notin> fst ` set acc"
  shows "broadcast_loop d c batch acc
         = acc @ map (\<lambda>(k, v). (k, replicate c v)) (filter (\<lambda>(k, v). d k v) batch)"
  using assms
proof (induction batch arbitrary: acc)
  case Nil
  show ?case by simp
next
  case (Cons p rest)
  obtain k v where p: "p = (k, v)" by (cases p)
  from Cons.prems p have dist: "distinct (map fst rest)" and knr: "k \<notin> fst ` set rest"
    and rest: "\<forall>(k, v) \<in> set rest. d k v \<longrightarrow> k \<notin> fst ` set acc"
    by auto
  show ?case
  proof (cases "d k v")
    case False
    with Cons.IH [OF dist rest] p show ?thesis by simp
  next
    case True
    with Cons.prems p have fresh: "k \<notin> fst ` set acc" by auto
    have rest': "\<forall>(k', v') \<in> set rest. d k' v' \<longrightarrow> k' \<notin> fst ` set (acc @ [(k, replicate c v)])"
      using rest knr by force
    from Cons.IH [OF dist rest'] p True show ?thesis
      by (simp add: update_fresh [OF fresh])
  qed
qed

lemma microbatch_at_ok:
  "\<forall>(k, c) \<in> set cs. idx < length c
     \<Longrightarrow> microbatch_at cs idx = Inr (map (\<lambda>(k, c). (k, c ! idx)) cs)"
  by (induction cs) auto

lemma collect_Inr: "collect (map (\<lambda>i. Inr (h i)) js) = Inr (map h js)"
  by (induction js) simp_all

lemma assemble_ok:
  assumes "\<forall>(k, c) \<in> set cs. C \<le> length c"
  shows "assemble cs C = Inr (map (\<lambda>i. map (\<lambda>(k, c). (k, c ! i)) cs) [0..<C])"
proof -
  have eq: "map (microbatch_at cs) [0..<C]
        = map (\<lambda>i. Inr (map (\<lambda>(k, c). (k, c ! i)) cs)) [0..<C]"
  proof (rule map_cong [OF refl])
    fix i assume "i \<in> set [0..<C]"
    then have "\<forall>(k, c) \<in> set cs. i < length c" using assms by fastforce
    then show "microbatch_at cs i = Inr (map (\<lambda>(k, c). (k, c ! i)) cs)"
      by (rule microbatch_at_ok)
  qed
  show ?thesis unfolding assemble_def eq by (rule collect_Inr)
qed


lemma concat_map_nonstatic:
  "concat (map (\<lambda>(k, v). case (if k \<in> S then None else Some (P k v)) of
                            None \<Rightarrow> [] | Some c \<Rightarrow> [(k, c)]) batch)
   = map (\<lambda>(k, v). (k, P k v)) (filter (\<lambda>(k, v). k \<notin> S) batch)"
  by (induction batch) auto

lemma split_batch_mc_exact:
  assumes n: "0 < n" and N: "0 < num_choices self" and Q: "0 < Q"
      and ok: "mc_batch_ok self Q batch"
  shows "split_batch_mc self batch (MInt (int n))
         = Inr (map (microbatch_of self n batch) [0..<(Q + n - 1) div n])"
proof -
  define C where "C = (Q + n - 1) div n"
  define S where "S = set (static_keys self)"
  define P where "P = (\<lambda>k v. map (\<lambda>i. piece self n i k v) [0..<C])"
  define NS where "NS = filter (\<lambda>(k, v). k \<notin> S) batch"
  define ST where "ST = filter (\<lambda>(k, v). k \<in> S) batch"
  define NSc where "NSc = map (\<lambda>(k, v). (k, P k v)) NS"
  define STc where "STc = map (\<lambda>(k, v). (k, replicate C v)) ST"
  from ok have dist: "distinct (map fst batch)" and ins: "''input_ids'' \<notin> S"
    and all: "\<forall>(k, v) \<in> set batch. entry_ok self Q k v"
    by (simp_all add: mc_batch_ok_def S_def)
  from ok obtain rs where inp: "map_of batch ''input_ids'' = Some (VTensor rs)"
    by (auto simp: mc_batch_ok_def split: option.splits bval.splits)
  have f: "\<forall>(k, v) \<in> set batch. chunk_value_mc self (int n) k v
             = Inr (if k \<in> S then None else Some (P k v))"
  proof (clarify)
    fix k v assume kv: "(k, v) \<in> set batch"
    show "chunk_value_mc self (int n) k v = Inr (if k \<in> S then None else Some (P k v))"
    proof (cases "k \<in> S")
      case True
      then show ?thesis by (simp add: chunk_value_mc_def S_def)
    next
      case False
      from all kv have "entry_ok self Q k v" by auto
      from chunk_value_mc_ok [OF n N Q this] False show ?thesis
        by (simp add: S_def P_def C_def)
    qed
  qed
  have loop: "chunk_loop (chunk_value_mc self (int n)) batch [] = Inr NSc"
    using chunk_loop_exact [where g = "\<lambda>k v. if k \<in> S then None else Some (P k v)"
              and acc = "[]", OF f dist]
    by (simp add: concat_map_nonstatic NSc_def NS_def)
  have keysNS: "map fst NSc = map fst NS"
    by (simp add: NSc_def comp_def case_prod_unfold)
  have distNS: "distinct (map fst NS)"
    unfolding NS_def using dist by (rule distinct_map_filter)
  have "(''input_ids'', VTensor rs) \<in> set batch" using inp by (rule map_of_SomeD)
  then have "(''input_ids'', VTensor rs) \<in> set NS" using ins by (simp add: NS_def)
  then have "(''input_ids'', P ''input_ids'' (VTensor rs)) \<in> set NSc"
    by (force simp: NSc_def)
  then have look: "map_of NSc ''input_ids'' = Some (P ''input_ids'' (VTensor rs))"
    using distNS keysNS by (intro map_of_is_SomeI) simp_all
  have lenP: "\<And>k v. length (P k v) = C" by (simp add: P_def)
  have fresh: "\<forall>(k, v) \<in> set batch. k \<in> S \<longrightarrow> k \<notin> fst ` set NSc"
    by (auto simp: NSc_def NS_def)
  have bc: "broadcast_loop (\<lambda>k v. k \<in> S) C batch NSc = NSc @ STc"
    using broadcast_loop_exact [OF dist fresh, of C] by (simp add: STc_def ST_def)
  have lens: "\<forall>(k, c) \<in> set (NSc @ STc). C \<le> length c"
    by (auto simp: NSc_def STc_def lenP)
  have as: "assemble (NSc @ STc) C
            = Inr (map (\<lambda>i. map (\<lambda>(k, c). (k, c ! i)) (NSc @ STc)) [0..<C])"
    using lens by (rule assemble_ok)
  have mb: "map (\<lambda>i. map (\<lambda>(k, c). (k, c ! i)) (NSc @ STc)) [0..<C]
            = map (microbatch_of self n batch) [0..<C]"
  proof (rule map_cong [OF refl])
    fix i assume "i \<in> set [0..<C]"
    then have i: "i < C" by simp
    have a: "map (\<lambda>(k, c). (k, c ! i)) NSc = map (\<lambda>(k, v). (k, piece self n i k v)) NS"
      using i by (simp add: NSc_def P_def comp_def case_prod_unfold)
    have b: "map (\<lambda>(k, c). (k, c ! i)) STc = map (\<lambda>(k, v). (k, piece self n i k v)) ST"
      unfolding STc_def map_map
    proof (rule map_cong [OF refl])
      fix p assume "p \<in> set ST"
      then have "fst p \<in> S" by (auto simp: ST_def)
      then show "((\<lambda>(k, c). (k, c ! i)) \<circ> (\<lambda>(k, v). (k, replicate C v))) p
                 = (case p of (k, v) \<Rightarrow> (k, piece self n i k v))"
        using i by (cases p) (simp add: piece_def S_def)
    qed
    show "map (\<lambda>(k, c). (k, c ! i)) (NSc @ STc) = microbatch_of self n batch i"
      by (simp add: a b microbatch_of_def NS_def ST_def S_def)
  qed
  have "split_batch_mc self batch (MInt (int n)) = assemble (NSc @ STc) C"
    by (simp add: split_batch_mc_def loop finish_split_def look lenP S_def [symmetric] bc)
  also have "\<dots> = Inr (map (microbatch_of self n batch) [0..<C])"
    unfolding as mb ..
  finally show ?thesis unfolding C_def .
qed


lemma keys_microbatch_of:
  "map fst (microbatch_of self n batch i)
   = map fst (filter (\<lambda>(k, v). k \<notin> set (static_keys self)) batch)
     @ map fst (filter (\<lambda>(k, v). k \<in> set (static_keys self)) batch)"
  by (simp add: microbatch_of_def comp_def case_prod_unfold)

lemma set_keys_microbatch_of: "fst ` set (microbatch_of self n batch i) = fst ` set batch"
proof -
  have "set (map fst (microbatch_of self n batch i)) = set (map fst batch)"
    unfolding keys_microbatch_of by (auto simp: image_iff)
  then show ?thesis by simp
qed

lemma distinct_keys_microbatch_of:
  assumes "distinct (map fst batch)"
  shows "distinct (map fst (microbatch_of self n batch i))"
proof -
  have "distinct (map fst (filter (\<lambda>(k, v). k \<notin> set (static_keys self)) batch))"
       "distinct (map fst (filter (\<lambda>(k, v). k \<in> set (static_keys self)) batch))"
    using assms by (rule distinct_map_filter)+
  moreover have "set (map fst (filter (\<lambda>(k, v). k \<notin> set (static_keys self)) batch))
        \<inter> set (map fst (filter (\<lambda>(k, v). k \<in> set (static_keys self)) batch)) = {}"
    by auto
  ultimately show ?thesis unfolding keys_microbatch_of by simp
qed

lemma microbatch_of_lookup:
  assumes "distinct (map fst batch)" and "(k, v) \<in> set batch"
  shows "map_of (microbatch_of self n batch i) k = Some (piece self n i k v)"
proof -
  have "(k, piece self n i k v) \<in> set (microbatch_of self n batch i)"
    using assms(2) by (force simp: microbatch_of_def)
  with distinct_keys_microbatch_of [OF assms(1)] show ?thesis
    by (intro map_of_is_SomeI)
qed

lemma concat_pieces:
  assumes "0 < m" and "length (chunks m xs) = C"
  shows "concat (map (\<lambda>i. take m (drop (i * m) xs)) [0..<C]) = xs"
    and "concat (take i (map (\<lambda>i. take m (drop (i * m) xs)) [0..<C])) = take (i * m) xs"
proof -
  have eq: "map (\<lambda>i. take m (drop (i * m) xs)) [0..<C] = chunks m xs"
    using chunks_nth_eq [OF assms(1), of xs] assms(2) by simp
  show "concat (map (\<lambda>i. take m (drop (i * m) xs)) [0..<C]) = xs"
    unfolding eq using assms(1) by (rule concat_chunks)
  show "concat (take i (map (\<lambda>i. take m (drop (i * m) xs)) [0..<C])) = take (i * m) xs"
    unfolding eq using assms(1) by (rule concat_take_chunks)
qed

lemma grouping_boundary:
  assumes "ETuple s e \<in> set (choice_groupings_of N Q)"
  shows "(i * (n * N)) mod N = 0 \<and> \<not> (s < i * (n * N) \<and> i * (n * N) < e)"
proof -
  from assms obtain q where s: "s = q * N" and e: "e = (q + 1) * N"
    by (auto simp: choice_groupings_of_def)
  have "\<not> (q * N < (i * n) * N \<and> (i * n) * N < (q + 1) * N)"
  proof
    assume a: "q * N < (i * n) * N \<and> (i * n) * N < (q + 1) * N"
    then have "q < i * n" and "i * n < q + 1" by (auto simp del: mult_Suc)
    then show False by simp
  qed
  then show ?thesis unfolding s e by (simp add: mult.assoc)
qed


lemma split_batch_multi_choice:
  "multi_choice ds = Some self \<Longrightarrow> split_batch ds batch sz = split_batch_mc self batch sz"
  by (cases ds) simp_all

text \<open>
  C1. Let a multiple-choice (or schema) dataset have \<open>num_choices > 0\<close>, let the batch hold
  \<open>Q > 0\<close> questions as \<open>collate_fn\<close> builds it, and let the microbatch size \<open>n\<close> be a
  positive integer. Then \<open>split_batch\<close> returns \<open>ceil(Q / n)\<close> microbatches, microbatch \<open>i\<close>
  holding under every key the piece \<open>i\<close> of the value of the batch. For every tensor
  key, the rows of the microbatches, concatenated in order, are the rows of the batch,
  and the first \<open>i\<close> microbatches hold its first \<open>i * n * num_choices\<close> rows: every
  boundary is at a multiple of \<open>num_choices\<close>, and none lies strictly inside a range of
  \<open>choice_groupings\<close>. The same holds for a list-of-tensors key; a list-of-tuples or
  list-of-primitives key is cut every \<open>n\<close> entries, one entry per question. Every static
  key has its value of the batch in every microbatch, and every microbatch has the keys
  of the batch.
\<close>

theorem split_batch_partition:
  assumes "multi_choice ds = Some self" and "0 < n" and "0 < num_choices self" and "0 < Q"
      and "mc_batch_ok self Q batch"
  shows "\<exists>mbs. split_batch ds batch (MInt (int n)) = Inr mbs
     \<and> mbs = map (microbatch_of self n batch) [0..<(Q + n - 1) div n]
     \<and> length mbs = (Q + n - 1) div n
     \<and> (\<forall>k rs. (k, VTensor rs) \<in> set batch \<and> k \<notin> set (static_keys self) \<longrightarrow>
            concat (map (\<lambda>mb. tensor_rows (map_of mb k)) mbs) = rs
          \<and> (\<forall>i. concat (map (\<lambda>mb. tensor_rows (map_of mb k)) (take i mbs))
                   = take (i * (n * num_choices self)) rs))
     \<and> (\<forall>k xs. (k, VList xs) \<in> set batch \<and> k \<notin> set (static_keys self) \<longrightarrow>
            concat (map (\<lambda>mb. list_elems (map_of mb k)) mbs) = xs
          \<and> (\<forall>i. concat (map (\<lambda>mb. list_elems (map_of mb k)) (take i mbs))
                   = take (i * (if k \<in> set (list_of_tensors_keys self)
                                then n * num_choices self else n)) xs))
     \<and> (\<forall>i s e. ETuple s e \<in> set (choice_groupings_of (num_choices self) Q) \<longrightarrow>
            (i * (n * num_choices self)) mod num_choices self = 0
          \<and> \<not> (s < i * (n * num_choices self) \<and> i * (n * num_choices self) < e))
     \<and> (\<forall>mb \<in> set mbs. \<forall>k v. (k, v) \<in> set batch \<and> k \<in> set (static_keys self)
            \<longrightarrow> map_of mb k = Some v)
     \<and> (\<forall>mb \<in> set mbs. fst ` set mb = fst ` set batch)"
proof -
  define N where "N = num_choices self"
  define m where "m = n * N"
  define C where "C = (Q + n - 1) div n"
  define mbs where "mbs = map (microbatch_of self n batch) [0..<C]"
  note n = assms(2) and Npos = assms(3) [folded N_def] and Q = assms(4) and ok = assms(5)
  have m: "0 < m" using n Npos by (simp add: m_def)
  have res: "split_batch ds batch (MInt (int n)) = Inr mbs"
    unfolding split_batch_multi_choice [OF assms(1)] mbs_def C_def
    using assms(2,3,4,5) by (rule split_batch_mc_exact)
  have len: "length mbs = C" by (simp add: mbs_def)
  from ok have dist: "distinct (map fst batch)"
    and all: "\<forall>(k, v) \<in> set batch. entry_ok self Q k v"
    by (simp_all add: mc_batch_ok_def)
  have look: "\<And>i k v. (k, v) \<in> set batch
                \<Longrightarrow> map_of (microbatch_of self n batch i) k = Some (piece self n i k v)"
    using dist by (rule microbatch_of_lookup)
  have tensors: "concat (map (\<lambda>mb. tensor_rows (map_of mb k)) mbs) = rs
          \<and> (\<forall>i. concat (map (\<lambda>mb. tensor_rows (map_of mb k)) (take i mbs)) = take (i * m) rs)"
    if kv: "(k, VTensor rs) \<in> set batch \<and> k \<notin> set (static_keys self)" for k rs
  proof -
    from kv all have "entry_ok self Q k (VTensor rs)" by auto
    with kv have lrs: "length rs = N * Q" by (simp add: entry_ok_def N_def)
    have c: "length (chunks m rs) = C"
      unfolding m_def C_def using n Npos lrs by (rule length_chunks_rows)
    have lk: "\<And>i. map_of (microbatch_of self n batch i) k = Some (piece self n i k (VTensor rs))"
      using kv by (intro look) simp
    have eq: "map (\<lambda>mb. tensor_rows (map_of mb k)) mbs
              = map (\<lambda>i. take m (drop (i * m) rs)) [0..<C]"
      using kv by (simp add: mbs_def comp_def lk piece_def m_def N_def)
    show ?thesis
      unfolding take_map [symmetric] eq
      using concat_pieces [OF m c] by simp
  qed
  have lists: "concat (map (\<lambda>mb. list_elems (map_of mb k)) mbs) = xs
          \<and> (\<forall>i. concat (map (\<lambda>mb. list_elems (map_of mb k)) (take i mbs))
                   = take (i * (if k \<in> set (list_of_tensors_keys self) then m else n)) xs)"
    if kv: "(k, VList xs) \<in> set batch \<and> k \<notin> set (static_keys self)" for k xs
  proof -
    define m' where "m' = (if k \<in> set (list_of_tensors_keys self) then m else n)"
    have m': "0 < m'" using m n by (simp add: m'_def)
    from kv all have eo: "entry_ok self Q k (VList xs)" by auto
    have c: "length (chunks m' xs) = C"
    proof (cases "k \<in> set (list_of_tensors_keys self)")
      case True
      with eo kv have "length xs = N * Q" by (simp add: entry_ok_def N_def)
      from length_chunks_rows [OF n Npos this] True show ?thesis
        by (simp add: m'_def m_def C_def)
    next
      case False
      with eo kv have "length xs = Q" by (auto simp: entry_ok_def split: if_splits)
      with length_chunks [OF n, of xs] False show ?thesis by (simp add: m'_def C_def)
    qed
    have lk: "\<And>i. map_of (microbatch_of self n batch i) k = Some (piece self n i k (VList xs))"
      using kv by (intro look) simp
    have eq: "map (\<lambda>mb. list_elems (map_of mb k)) mbs
              = map (\<lambda>i. take m' (drop (i * m') xs)) [0..<C]"
      using kv by (simp add: mbs_def comp_def lk piece_def m_def N_def m'_def)
    show ?thesis
      unfolding take_map [symmetric] eq m'_def [symmetric]
      using concat_pieces [OF m' c] by simp
  qed
  have bound: "(i * m) mod N = 0 \<and> \<not> (s < i * m \<and> i * m < e)"
    if "ETuple s e \<in> set (choice_groupings_of N Q)" for i s e
    unfolding m_def using that by (rule grouping_boundary)
  have static: "\<forall>mb \<in> set mbs. \<forall>k v. (k, v) \<in> set batch \<and> k \<in> set (static_keys self)
            \<longrightarrow> map_of mb k = Some v"
  proof (intro ballI allI impI)
    fix mb k v assume mb: "mb \<in> set mbs" and kv: "(k, v) \<in> set batch \<and> k \<in> set (static_keys self)"
    from mb obtain i where "mb = microbatch_of self n batch i" by (auto simp: mbs_def)
    with look [of k v i] kv show "map_of mb k = Some v" by (simp add: piece_def)
  qed
  have keys: "\<forall>mb \<in> set mbs. fst ` set mb = fst ` set batch"
  proof
    fix mb assume "mb \<in> set mbs"
    then obtain i where "mb = microbatch_of self n batch i" by (auto simp: mbs_def)
    then show "fst ` set mb = fst ` set batch" by (simp only: set_keys_microbatch_of)
  qed
  show ?thesis
    unfolding N_def [symmetric] m_def [symmetric] C_def [symmetric]
    apply (rule exI [of _ mbs])
    apply (intro conjI allI impI)
    using res mbs_def len tensors lists bound static keys
    apply (blast | simp)+
    done
qed


theorem split_batch_partition_witness:
  "multi_choice (InContextLearningMultipleChoiceTaskDataset (multiple_choice_init 0 True [] 2))
     = Some (multiple_choice_init 0 True [] 2)
   \<and> 0 < num_choices (multiple_choice_init 0 True [] 2)
   \<and> mc_batch_ok (multiple_choice_init 0 True [] 2) 3
        [(''input_ids'', VTensor [[1, 2, 0], [1, 3, 0], [4, 5, 6], [4, 7, 0], [8, 5, 6], [8, 7, 0]]),
         (''continuation_indices'',
          VList [ETensor [1], ETensor [1], ETensor [1, 2], ETensor [1], ETensor [1, 2], ETensor [1]]),
         (''mode'', VStr ''icl_task''),
         (''gold_indices'', VList [EInt 0, EInt 1, EInt 1]),
         (''choice_groupings'', VList [ETuple 0 2, ETuple 2 4, ETuple 4 6])]
   \<and> split_batch (InContextLearningMultipleChoiceTaskDataset (multiple_choice_init 0 True [] 2))
        [(''input_ids'', VTensor [[1, 2, 0], [1, 3, 0], [4, 5, 6], [4, 7, 0], [8, 5, 6], [8, 7, 0]]),
         (''continuation_indices'',
          VList [ETensor [1], ETensor [1], ETensor [1, 2], ETensor [1], ETensor [1, 2], ETensor [1]]),
         (''mode'', VStr ''icl_task''),
         (''gold_indices'', VList [EInt 0, EInt 1, EInt 1]),
         (''choice_groupings'', VList [ETuple 0 2, ETuple 2 4, ETuple 4 6])]
        (MInt 2)
     = Inr [[(''input_ids'', VTensor [[1, 2, 0], [1, 3, 0], [4, 5, 6], [4, 7, 0]]),
             (''continuation_indices'', VList [ETensor [1], ETensor [1], ETensor [1, 2], ETensor [1]]),
             (''gold_indices'', VList [EInt 0, EInt 1]),
             (''choice_groupings'', VList [ETuple 0 2, ETuple 2 4]),
             (''mode'', VStr ''icl_task'')],
            [(''input_ids'', VTensor [[8, 5, 6], [8, 7, 0]]),
             (''continuation_indices'', VList [ETensor [1, 2], ETensor [1]]),
             (''gold_indices'', VList [EInt 1]),
             (''choice_groupings'', VList [ETuple 4 6]),
             (''mode'', VStr ''icl_task'')]]"
proof -
  let ?self = "multiple_choice_init 0 True [] 2"
  let ?batch = "[(''input_ids'', VTensor [[1, 2, 0], [1, 3, 0], [4, 5, 6], [4, 7, 0], [8, 5, 6], [8, 7, 0]]),
         (''continuation_indices'',
          VList [ETensor [1], ETensor [1], ETensor [1, 2], ETensor [1], ETensor [1, 2], ETensor [1]]),
         (''mode'', VStr ''icl_task''),
         (''gold_indices'', VList [EInt 0, EInt 1, EInt 1]),
         (''choice_groupings'', VList [ETuple 0 2, ETuple 2 4, ETuple 4 6])]"
  have h1: "multi_choice (InContextLearningMultipleChoiceTaskDataset ?self) = Some ?self" by simp
  have h2: "0 < num_choices ?self" by (simp add: multiple_choice_init_def)
  have h3: "mc_batch_ok ?self 3 ?batch"
    by (simp add: mc_batch_ok_def entry_ok_def multiple_choice_init_def choice_groupings_of_def
          eval_nat_numeral)
  from split_batch_partition [OF h1 _ h2 _ h3, of 2]
  have r: "split_batch (InContextLearningMultipleChoiceTaskDataset ?self) ?batch (MInt (int 2))
        = Inr (map (microbatch_of ?self 2 ?batch) [0..<(3 + 2 - 1) div 2])"
    by simp
  have idx: "[0..<(3 + 2 - 1) div 2] = [0, 1::nat]"
    by (simp add: upt_rec)
  have "split_batch (InContextLearningMultipleChoiceTaskDataset ?self) ?batch (MInt 2)
        = Inr [microbatch_of ?self 2 ?batch 0, microbatch_of ?self 2 ?batch 1]"
    using r unfolding idx by simp
  then show ?thesis
    using h1 h2 h3
    by (simp add: microbatch_of_def piece_def multiple_choice_init_def)
qed

end
